theory Spec2Isabelle
  imports Complex_Main "HOL-Library.AList"
begin

section \<open>JavaScript numbers\<close>

text \<open>
  A JavaScript number is an IEEE-754 double. The model keeps the special values that the
  arithmetic of the engine can produce (the two infinities, NaN and the negative zero)
  and computes exactly, without rounding, on the finite values. Division never raises:
  a zero divisor gives an infinity or NaN.
\<close>

datatype jsnum = Num rat | NegZero | PosInf | NegInf | NaN

fun js_neg :: "jsnum \<Rightarrow> bool" where
  "js_neg (Num r) = (r < 0)"
| "js_neg NegZero = True"
| "js_neg PosInf = False"
| "js_neg NegInf = True"
| "js_neg NaN = False"

fun js_val :: "jsnum \<Rightarrow> rat" where
  "js_val (Num r) = r"
| "js_val NegZero = 0"
| "js_val PosInf = 0"
| "js_val NegInf = 0"
| "js_val NaN = 0"

fun js_inf :: "jsnum \<Rightarrow> bool" where
  "js_inf PosInf = True"
| "js_inf NegInf = True"
| "js_inf (Num r) = False"
| "js_inf NegZero = False"
| "js_inf NaN = False"

fun js_zero :: "jsnum \<Rightarrow> bool" where
  "js_zero (Num r) = (r = 0)"
| "js_zero NegZero = True"
| "js_zero PosInf = False"
| "js_zero NegInf = False"
| "js_zero NaN = False"

definition js_signed_inf :: "bool \<Rightarrow> jsnum" where
  "js_signed_inf neg = (if neg then NegInf else PosInf)"

definition js_signed_zero :: "bool \<Rightarrow> jsnum" where
  "js_signed_zero neg = (if neg then NegZero else Num 0)"

definition js_fin :: "bool \<Rightarrow> rat \<Rightarrow> jsnum" where
  "js_fin neg r = (if r = 0 then js_signed_zero neg else Num r)"

definition js_mul :: "jsnum \<Rightarrow> jsnum \<Rightarrow> jsnum" where
  "js_mul x y =
     (if x = NaN \<or> y = NaN then NaN
      else if (js_inf x \<and> js_zero y) \<or> (js_zero x \<and> js_inf y) then NaN
      else if js_inf x \<or> js_inf y then js_signed_inf (js_neg x \<noteq> js_neg y)
      else js_fin (js_neg x \<noteq> js_neg y) (js_val x * js_val y))"

definition js_div :: "jsnum \<Rightarrow> jsnum \<Rightarrow> jsnum" where
  "js_div x y =
     (if x = NaN \<or> y = NaN then NaN
      else if (js_inf x \<and> js_inf y) \<or> (js_zero x \<and> js_zero y) then NaN
      else if js_inf x \<or> js_zero y then js_signed_inf (js_neg x \<noteq> js_neg y)
      else if js_inf y then js_signed_zero (js_neg x \<noteq> js_neg y)
      else js_fin (js_neg x \<noteq> js_neg y) (js_val x / js_val y))"

definition js_add :: "jsnum \<Rightarrow> jsnum \<Rightarrow> jsnum" where
  "js_add x y =
     (if x = NaN \<or> y = NaN then NaN
      else if js_inf x \<and> js_inf y then (if x = y then x else NaN)
      else if js_inf x then x
      else if js_inf y then y
      else js_fin (js_neg x \<and> js_neg y) (js_val x + js_val y))"

fun js_negate :: "jsnum \<Rightarrow> jsnum" where
  "js_negate (Num r) = (if r = 0 then NegZero else Num (- r))"
| "js_negate NegZero = Num 0"
| "js_negate PosInf = NegInf"
| "js_negate NegInf = PosInf"
| "js_negate NaN = NaN"

definition js_sub :: "jsnum \<Rightarrow> jsnum \<Rightarrow> jsnum" where
  "js_sub x y = js_add x (js_negate y)"

text \<open>\<open>x > y\<close>: false whenever an operand is NaN.\<close>

definition js_gt :: "jsnum \<Rightarrow> jsnum \<Rightarrow> bool" where
  "js_gt x y =
     (if x = NaN \<or> y = NaN then False
      else if x = PosInf then y \<noteq> PosInf
      else if y = NegInf then x \<noteq> NegInf
      else if x = NegInf \<or> y = PosInf then False
      else js_val y < js_val x)"

definition js_nat :: "nat \<Rightarrow> jsnum" where
  "js_nat n = Num (of_nat n)"

text \<open>\<open>xs.reduce((a, b) => a + b, 0)\<close> on a list of counts.\<close>

definition reduce_sum :: "nat list \<Rightarrow> nat" where
  "reduce_sum xs = foldl (\<lambda>a b. a + b) 0 xs"

text \<open>\<open>Math.max(...xs)\<close>: \<open>-Infinity\<close> for the empty list, NaN as soon as an argument is NaN.\<close>

definition math_max :: "jsnum list \<Rightarrow> jsnum" where
  "math_max xs = foldl (\<lambda>m x. if m = NaN \<or> x = NaN then NaN else if js_gt x m then x else m) NegInf xs"

text \<open>
  A JavaScript object used as a table keeps its (non-numeric) keys in insertion order;
  assigning to a key that is present replaces its value in place. Reading an absent key
  gives \<open>undefined\<close>, which arithmetic turns into NaN.
\<close>

type_synonym 'a obj = "(string \<times> 'a) list"

definition num_at :: "jsnum obj \<Rightarrow> string \<Rightarrow> jsnum" where
  "num_at t k = (case map_of t k of None \<Rightarrow> NaN | Some v \<Rightarrow> v)"

definition obj_values :: "'a obj \<Rightarrow> 'a list" where
  "obj_values t = map snd t"

text \<open>\<open>xs.reduce((a, b) => a + b, 0)\<close> on a list of numbers.\<close>

definition js_sum :: "jsnum list \<Rightarrow> jsnum" where
  "js_sum xs = foldl js_add (Num 0) xs"

section \<open>The graph container\<close>

text \<open>
  Modelled from the spec: the graph container that \<open>networkController.js\<close> imports
  from the package \<open>graph-data-structure\<close> (\<open>Graph\<close>, \<open>addNode\<close>, \<open>addEdge\<close>,
  \<open>hasNode\<close>, \<open>hasEdge\<close>, \<open>nodes\<close>, \<open>edges\<close>, \<open>adjacent\<close>, \<open>adjacentReverse\<close>,
  \<open>indegree\<close>, \<open>outdegree\<close>) is not part of the sources. The spec describes it as a
  directed multigraph keyed by paper identifier: a set of node ids and a multiset of
  edges in which parallel edges between the same ordered pair are permitted and each
  counted separately, with in-degree and out-degree computed by a pass over the edge
  multiset. The node set is kept as a duplicate-free list in insertion order and the
  edge multiset as a list in insertion order; \<open>adjacent\<close> lists the target of every
  outgoing edge, one entry per edge, so that its length is the out-degree.
\<close>

type_synonym nodeId = string

record digraph =
  nodes :: "nodeId list"
  edges :: "(nodeId \<times> nodeId) list"

definition Graph :: digraph where
  "Graph = \<lparr>nodes = [], edges = []\<rparr>"

definition hasNode :: "digraph \<Rightarrow> nodeId \<Rightarrow> bool" where
  "hasNode g n = (n \<in> set (nodes g))"

definition addNode :: "nodeId \<Rightarrow> digraph \<Rightarrow> digraph" where
  "addNode n g = (if n \<in> set (nodes g) then g else g\<lparr>nodes := nodes g @ [n]\<rparr>)"

definition addEdge :: "nodeId \<Rightarrow> nodeId \<Rightarrow> digraph \<Rightarrow> digraph" where
  "addEdge u v g = (let g' = addNode v (addNode u g) in g'\<lparr>edges := edges g' @ [(u, v)]\<rparr>)"

definition hasEdge :: "digraph \<Rightarrow> nodeId \<Rightarrow> nodeId \<Rightarrow> bool" where
  "hasEdge g u v = ((u, v) \<in> set (edges g))"

definition adjacent :: "digraph \<Rightarrow> nodeId \<Rightarrow> nodeId list" where
  "adjacent g u = map snd (filter (\<lambda>e. fst e = u) (edges g))"

definition adjacentReverse :: "digraph \<Rightarrow> nodeId \<Rightarrow> nodeId list" where
  "adjacentReverse g v = map fst (filter (\<lambda>e. snd e = v) (edges g))"

definition indegree :: "digraph \<Rightarrow> nodeId \<Rightarrow> nat" where
  "indegree g v = length (filter (\<lambda>e. snd e = v) (edges g))"

definition outdegree :: "digraph \<Rightarrow> nodeId \<Rightarrow> nat" where
  "outdegree g u = length (filter (\<lambda>e. fst e = u) (edges g))"

text \<open>
  What the operations of the container maintain: no node is listed twice and every edge
  joins two nodes.
\<close>

definition wf_graph :: "digraph \<Rightarrow> bool" where
  "wf_graph g = (distinct (nodes g) \<and> fst ` set (edges g) \<subseteq> set (nodes g)
                 \<and> snd ` set (edges g) \<subseteq> set (nodes g))"

section \<open>Records of the store and the network state\<close>

record author =
  name :: string
  affiliation :: string

text \<open>
  A Paper document as the store returns it, reduced to the fields the engine copies into
  a node. \<open>paper_id\<close> is \<open>_id.toString()\<close> and \<open>publishedYear\<close> is
  \<open>publishedDate.getFullYear()\<close>, the only use the engine makes of the date.
\<close>

record paper =
  paper_id :: nodeId
  title :: string
  authors :: "author list"
  publishedYear :: int
  citationCount :: rat
  impactScore :: rat
  categories :: "string list"
  paper_keywords :: "string list"

record citation =
  citingPaper :: nodeId
  citedPaper :: nodeId
  c_citationType :: string
  c_sentiment :: string
  c_strength :: rat
  c_context :: string

record citationEdge =
  ce_source :: nodeId
  ce_target :: nodeId
  ce_citationType :: string
  ce_sentiment :: string
  ce_strength :: rat
  ce_context :: string

text \<open>
  The fields of \<open>CitationNetworkAnalysis\<close>. A JavaScript \<open>Map\<close> keeps its keys in
  insertion order and \<open>set\<close> on a key that is present replaces the value in place:
  an association list with \<open>AList.update\<close>.
\<close>

record network =
  graph :: digraph
  paperNodes :: "(nodeId \<times> paper) list"
  citationEdges :: "(string \<times> citationEdge) list"

definition edgeKey :: "nodeId \<Rightarrow> nodeId \<Rightarrow> string" where
  "edgeKey s t = s @ ''-'' @ t"

section \<open>buildCitationNetwork\<close>

text \<open>
  The two queries to the store are external; their results (\<open>papers\<close>, then the
  \<open>citations\<close> between them) are the inputs of the model. The build clears the
  three fields first, so its result does not depend on the earlier state.
\<close>

definition addPaper :: "paper \<Rightarrow> network \<Rightarrow> network" where
  "addPaper p net =
     net\<lparr>graph := addNode (paper_id p) (graph net),
         paperNodes := AList.update (paper_id p) p (paperNodes net)\<rparr>"

definition addCitation :: "citation \<Rightarrow> network \<Rightarrow> network" where
  "addCitation c net =
     (let sourceId = citingPaper c; targetId = citedPaper c in
      if hasNode (graph net) sourceId \<and> hasNode (graph net) targetId
      then net\<lparr>graph := addEdge sourceId targetId (graph net),
               citationEdges := AList.update (edgeKey sourceId targetId)
                 \<lparr>ce_source = sourceId, ce_target = targetId, ce_citationType = c_citationType c,
                  ce_sentiment = c_sentiment c, ce_strength = c_strength c,
                  ce_context = c_context c\<rparr>
                 (citationEdges net)\<rparr>
      else net)"

record buildResult =
  br_nodes :: nat
  br_edges :: nat
  br_papers :: "paper list"
  br_citations :: "citationEdge list"

definition emptyNetwork :: network where
  "emptyNetwork = \<lparr>graph = Graph, paperNodes = [], citationEdges = []\<rparr>"

definition buildNetwork :: "paper list \<Rightarrow> citation list \<Rightarrow> network" where
  "buildNetwork papers citations = fold addCitation citations (fold addPaper papers emptyNetwork)"

definition buildCitationNetwork :: "paper list \<Rightarrow> citation list \<Rightarrow> network \<times> buildResult" where
  "buildCitationNetwork papers citations =
     (let net = buildNetwork papers citations in
      (net, \<lparr>br_nodes = length (nodes (graph net)), br_edges = length (edges (graph net)),
             br_papers = map snd (paperNodes net), br_citations = map snd (citationEdges net)\<rparr>))"

section \<open>calculateBasicMetrics\<close>

text \<open>
  How often each degree occurs: \<open>count[degree] = (count[degree] || 0) + 1\<close>, once for the
  in-degrees and once for the out-degrees.
\<close>

definition countDegrees :: "nat list \<Rightarrow> (nat \<rightharpoonup> nat)" where
  "countDegrees degrees =
     fold (\<lambda>degree d. d(degree \<mapsto> (case d degree of None \<Rightarrow> 0 | Some c \<Rightarrow> c) + 1))
       degrees Map.empty"

record degreeDistribution =
  dd_inDegree :: "nat \<rightharpoonup> nat"
  dd_outDegree :: "nat \<rightharpoonup> nat"

definition calculateDegreeDistribution :: "nat list \<Rightarrow> nat list \<Rightarrow> degreeDistribution" where
  "calculateDegreeDistribution inDegrees outDegrees =
     \<lparr>dd_inDegree = countDegrees inDegrees, dd_outDegree = countDegrees outDegrees\<rparr>"

record basicMetrics =
  nodeCount :: nat
  edgeCount :: nat
  density :: jsnum
  avgInDegree :: jsnum
  avgOutDegree :: jsnum
  maxInDegree :: jsnum
  maxOutDegree :: jsnum
  bm_degreeDistribution :: degreeDistribution

definition calculateBasicMetrics :: "network \<Rightarrow> basicMetrics" where
  "calculateBasicMetrics net =
     (let ns = nodes (graph net);
          es = edges (graph net);
          inDegrees = map (indegree (graph net)) ns;
          outDegrees = map (outdegree (graph net)) ns
      in \<lparr>nodeCount = length ns,
          edgeCount = length es,
          density = js_div (js_nat (length es))
                      (js_mul (js_nat (length ns)) (js_sub (js_nat (length ns)) (Num 1))),
          avgInDegree = js_div (js_nat (reduce_sum inDegrees)) (js_nat (length ns)),
          avgOutDegree = js_div (js_nat (reduce_sum outDegrees)) (js_nat (length ns)),
          maxInDegree = math_max (map js_nat inDegrees),
          maxOutDegree = math_max (map js_nat outDegrees),
          bm_degreeDistribution = calculateDegreeDistribution inDegrees outDegrees\<rparr>)"

section \<open>Degree tables and the authority score\<close>

definition degreeTable :: "(nodeId \<Rightarrow> nat) \<Rightarrow> nodeId list \<Rightarrow> nat obj" where
  "degreeTable f ns = fold (\<lambda>node t. AList.update node (f node) t) ns []"

text \<open>
  One pass of the loop body of \<open>calculateAuthorityScore\<close>. \<open>newScores\<close> is declared
  outside the loop, so it is part of the loop state; \<open>Object.assign(scores, newScores)\<close>
  copies every key of \<open>newScores\<close> into \<open>scores\<close>.
\<close>

definition object_assign :: "'a obj \<Rightarrow> 'a obj \<Rightarrow> 'a obj" where
  "object_assign t src = fold (\<lambda>kv acc. AList.update (fst kv) (snd kv) acc) src t"

definition addContribution :: "jsnum \<Rightarrow> nodeId \<Rightarrow> jsnum obj \<Rightarrow> jsnum obj" where
  "addContribution contribution neighbor newScores =
     AList.update neighbor (js_add (num_at newScores neighbor) contribution) newScores"

definition distribute :: "digraph \<Rightarrow> jsnum \<Rightarrow> jsnum obj \<Rightarrow> nodeId \<Rightarrow> jsnum obj \<Rightarrow> jsnum obj" where
  "distribute g dampingFactor scores node newScores =
     (let outDegree = outdegree g node in
      if outDegree > 0
      then let contribution = js_div (js_mul dampingFactor (num_at scores node)) (js_nat outDegree)
           in fold (addContribution contribution) (adjacent g node) newScores
      else newScores)"

definition authorityIteration ::
  "digraph \<Rightarrow> jsnum \<Rightarrow> jsnum obj \<times> jsnum obj \<Rightarrow> jsnum obj \<times> jsnum obj" where
  "authorityIteration g dampingFactor st =
     (let ns = nodes g;
          scores = fst st;
          newScores1 = fold (\<lambda>node t. AList.update node
                          (js_div (js_sub (Num 1) dampingFactor) (js_nat (length ns))) t) ns (snd st);
          newScores2 = fold (distribute g dampingFactor scores) ns newScores1
      in (object_assign scores newScores2, newScores2))"

definition calculateAuthorityScore :: "digraph \<Rightarrow> nat \<Rightarrow> jsnum \<Rightarrow> jsnum obj" where
  "calculateAuthorityScore g iterations dampingFactor =
     (let ns = nodes g;
          scores0 = fold (\<lambda>node t. AList.update node (js_div (Num 1) (js_nat (length ns))) t) ns []
      in fst ((authorityIteration g dampingFactor ^^ iterations) (scores0, [])))"

section \<open>calculateClusteringMetrics\<close>

text \<open>The double loop over the index pairs \<open>i < j\<close> of the neighbour list.\<close>

fun countTriangles :: "digraph \<Rightarrow> nodeId list \<Rightarrow> nat" where
  "countTriangles g [] = 0"
| "countTriangles g (ni # rest) =
     length (filter (\<lambda>nj. hasEdge g ni nj \<or> hasEdge g nj ni) rest) + countTriangles g rest"

definition localClustering :: "digraph \<Rightarrow> nodeId \<Rightarrow> jsnum" where
  "localClustering g node =
     (let neighbors = adjacent g node in
      if length neighbors < 2 then Num 0
      else let triangles = countTriangles g neighbors;
               possibleTriangles =
                 js_div (js_mul (js_nat (length neighbors))
                                (js_sub (js_nat (length neighbors)) (Num 1))) (Num 2)
           in js_div (js_nat triangles) possibleTriangles)"

record clusteringMetrics =
  cl_local :: "jsnum obj"
  cl_global :: jsnum

definition calculateClusteringMetrics :: "network \<Rightarrow> clusteringMetrics" where
  "calculateClusteringMetrics net =
     (let g = graph net;
          ns = nodes g;
          clustering = fold (\<lambda>node t. AList.update node (localClustering g node) t) ns [];
          avgClustering = js_div (js_sum (obj_values clustering)) (js_nat (length ns))
      in \<lparr>cl_local = clustering, cl_global = avgClustering\<rparr>)"

section \<open>findShortestPaths and calculateBetweennessCentrality\<close>

text \<open>\<open>path.join("-")\<close>.\<close>

fun join_dash :: "string list \<Rightarrow> string" where
  "join_dash [] = []"
| "join_dash [x] = x"
| "join_dash (x # y # ys) = x @ ''-'' @ join_dash (y # ys)"

text \<open>
  The paths pushed for one dequeued path: one per entry of the adjacency list of its last
  node that is not yet on the path. A path in the queue is never empty (the queue starts
  with \<open>[source]\<close> and paths only grow).
\<close>

definition extensions :: "digraph \<Rightarrow> nodeId list \<Rightarrow> nodeId list list" where
  "extensions g path = map (\<lambda>neighbor. path @ [neighbor])
                         (filter (\<lambda>neighbor. neighbor \<notin> set path) (adjacent g (last path)))"

definition queue_weight :: "digraph \<Rightarrow> nodeId list list \<Rightarrow> nat" where
  "queue_weight g queue = sum_list (map (\<lambda>p. (length (edges g) + 1) ^ (7 - length p)) queue)"

lemma queue_weight_append [simp]:
  "queue_weight g (xs @ ys) = queue_weight g xs + queue_weight g ys"
  by (simp add: queue_weight_def)

lemma queue_weight_Cons [simp]:
  "queue_weight g (p # ps) = (length (edges g) + 1) ^ (7 - length p) + queue_weight g ps"
  by (simp add: queue_weight_def)

lemma length_adjacent_le: "length (adjacent g n) \<le> length (edges g)"
  by (simp add: adjacent_def)

lemma queue_weight_extensions:
  assumes "length path \<le> 5"
  shows "queue_weight g (extensions g path) < (length (edges g) + 1) ^ (7 - length path)"
proof -
  define D where "D = length (edges g)"
  define l where "l = length path"
  have "queue_weight g (extensions g path)
        = length (extensions g path) * (D + 1) ^ (7 - (l + 1))"
    by (simp add: queue_weight_def extensions_def comp_def sum_list_triv D_def l_def)
  also have "\<dots> \<le> D * (D + 1) ^ (7 - (l + 1))"
    using length_adjacent_le[of g "last path"]
    by (intro mult_le_mono1) (simp add: extensions_def D_def le_trans[OF length_filter_le])
  also have "\<dots> < (D + 1) * (D + 1) ^ (7 - (l + 1))"
    by simp
  also have "\<dots> = (D + 1) ^ (7 - l)"
  proof -
    have e: "7 - l = Suc (7 - (l + 1))" using assms unfolding l_def by arith
    show ?thesis unfolding e by simp
  qed
  finally show ?thesis by (simp add: D_def l_def)
qed

text \<open>
  The \<open>while\<close> loop of \<open>findShortestPaths\<close>; \<open>visited\<close> holds the keys of the
  paths already expanded.
\<close>

function findShortestPaths_loop ::
  "digraph \<Rightarrow> nodeId \<Rightarrow> nat \<Rightarrow> nodeId list list \<Rightarrow> nodeId list list \<Rightarrow> string set
   \<Rightarrow> nodeId list list" where
  "findShortestPaths_loop g tgt maxPaths paths [] visited = paths"
| "findShortestPaths_loop g tgt maxPaths paths (path # queue) visited =
     (if length paths < maxPaths then
        (if last path = tgt
         then findShortestPaths_loop g tgt maxPaths (paths @ [path]) queue visited
         else if length path > 5
         then findShortestPaths_loop g tgt maxPaths paths queue visited
         else if join_dash path \<in> visited
         then findShortestPaths_loop g tgt maxPaths paths queue visited
         else findShortestPaths_loop g tgt maxPaths paths (queue @ extensions g path)
                (insert (join_dash path) visited))
      else paths)"
  by pat_completeness auto
termination
proof (relation "measure (\<lambda>(g, tgt, maxPaths, paths, queue, visited). queue_weight g queue)")
  show "wf (measure (\<lambda>(g, tgt, maxPaths, paths, queue, visited). queue_weight g queue))"
    by simp
next
  fix g :: digraph and tgt :: nodeId and maxPaths :: nat
    and paths path queue and visited :: "string set"
  show "((g, tgt, maxPaths, paths @ [path], queue, visited),
         (g, tgt, maxPaths, paths, path # queue, visited))
        \<in> measure (\<lambda>(g, tgt, maxPaths, paths, queue, visited). queue_weight g queue)"
    by simp
  show "((g, tgt, maxPaths, paths, queue, visited),
         (g, tgt, maxPaths, paths, path # queue, visited))
        \<in> measure (\<lambda>(g, tgt, maxPaths, paths, queue, visited). queue_weight g queue)"
    by simp
  show "((g, tgt, maxPaths, paths, queue, visited),
         (g, tgt, maxPaths, paths, path # queue, visited))
        \<in> measure (\<lambda>(g, tgt, maxPaths, paths, queue, visited). queue_weight g queue)"
    by simp
  assume "\<not> 5 < length path"
  then have "length path \<le> 5" by simp
  from queue_weight_extensions[OF this, of g]
  show "((g, tgt, maxPaths, paths, queue @ extensions g path, insert (join_dash path) visited),
         (g, tgt, maxPaths, paths, path # queue, visited))
        \<in> measure (\<lambda>(g, tgt, maxPaths, paths, queue, visited). queue_weight g queue)"
    by simp
qed

definition findShortestPaths :: "digraph \<Rightarrow> nodeId \<Rightarrow> nodeId \<Rightarrow> nodeId list list" where
  "findShortestPaths g src tgt = findShortestPaths_loop g tgt 3 [] [[src]] {}"

text \<open>\<open>betweenness[k]++\<close>.\<close>

definition increment :: "nodeId \<Rightarrow> jsnum obj \<Rightarrow> jsnum obj" where
  "increment k t = AList.update k (js_add (num_at t k) (Num 1)) t"

text \<open>The nodes strictly inside a path: indices \<open>1 .. length - 2\<close>.\<close>

definition interior :: "nodeId list \<Rightarrow> nodeId list" where
  "interior path = butlast (tl path)"

definition countPair :: "digraph \<Rightarrow> nodeId \<Rightarrow> nodeId \<Rightarrow> jsnum obj \<Rightarrow> jsnum obj" where
  "countPair g src tgt betweenness =
     (if src \<noteq> tgt
      then fold (\<lambda>path t. fold increment (interior path) t) (findShortestPaths g src tgt) betweenness
      else betweenness)"

definition calculateBetweennessCentrality :: "digraph \<Rightarrow> jsnum obj" where
  "calculateBetweennessCentrality g =
     (let ns = nodes g;
          zero = fold (\<lambda>node t. AList.update node (Num 0) t) ns [];
          counted = fold (\<lambda>src t. fold (\<lambda>tgt t'. countPair g src tgt t') ns t) ns zero;
          maxBetweenness = math_max (obj_values counted)
      in if js_gt maxBetweenness (Num 0)
         then map (\<lambda>kv. (fst kv, js_div (snd kv) maxBetweenness)) counted
         else counted)"

record centralityMetrics =
  inDegree :: "nat obj"
  outDegree :: "nat obj"
  betweenness :: "jsnum obj"
  authority :: "jsnum obj"

definition calculateCentralityMetrics :: "network \<Rightarrow> centralityMetrics" where
  "calculateCentralityMetrics net =
     (let g = graph net; ns = nodes g
      in \<lparr>inDegree = degreeTable (indegree g) ns,
          outDegree = degreeTable (outdegree g) ns,
          betweenness = calculateBetweennessCentrality g,
          authority = calculateAuthorityScore g 10 (Num (85 / 100))\<rparr>)"

section \<open>calculatePaperSimilarity and detectCommunities\<close>

datatype error = NotBuilt | TypeError

text \<open>\<open>new Set(xs).size\<close> and the size of the overlap of two such sets.\<close>

definition set_size :: "string list \<Rightarrow> nat" where
  "set_size xs = length (remdups xs)"

definition overlap_size :: "string list \<Rightarrow> string list \<Rightarrow> nat" where
  "overlap_size xs ys = length (filter (\<lambda>x. x \<in> set ys) (remdups xs))"

definition overlapRatio :: "string list \<Rightarrow> string list \<Rightarrow> jsnum" where
  "overlapRatio xs ys = js_div (js_nat (overlap_size xs ys)) (js_nat (max (set_size xs) (set_size ys)))"

definition calculatePaperSimilarity :: "paper \<Rightarrow> paper \<Rightarrow> jsnum" where
  "calculatePaperSimilarity paper1 paper2 =
     (let similarity0 = Num 0;
          similarity1 = js_add similarity0
             (js_mul (overlapRatio (categories paper1) (categories paper2)) (Num (4 / 10)));
          similarity2 = js_add similarity1
             (js_mul (overlapRatio (paper_keywords paper1) (paper_keywords paper2)) (Num (3 / 10)));
          similarity3 = js_add similarity2
             (js_mul (overlapRatio (map name (authors paper1)) (map name (authors paper2))) (Num (3 / 10)))
      in similarity3)"

text \<open>A JavaScript \<open>Set\<close> that is later turned into an array: insertion order, no duplicates.\<close>

definition set_add :: "'a \<Rightarrow> 'a list \<Rightarrow> 'a list" where
  "set_add x xs = (if x \<in> set xs then xs else xs @ [x])"

text \<open>
  The state of the expansion of one group: the community, the queue and the visited set.
  \<open>scanNeighbors\<close> is the \<open>for\<close> loop over the outgoing neighbours of the dequeued
  node; \<open>calculatePaperSimilarity\<close> throws when it reads the categories of a paper that
  \<open>paperNodes\<close> does not hold.
\<close>

type_synonym bfs_state = "nodeId list \<times> nodeId list \<times> nodeId set"

fun scanNeighbors :: "network \<Rightarrow> nodeId \<Rightarrow> nodeId list \<Rightarrow> bfs_state \<Rightarrow> error + bfs_state" where
  "scanNeighbors net current [] st = Inr st"
| "scanNeighbors net current (neighbor # rest) (community, queue, visited) =
     (if neighbor \<in> visited then scanNeighbors net current rest (community, queue, visited)
      else case map_of (paperNodes net) current of
             None \<Rightarrow> Inl TypeError
           | Some currentPaper \<Rightarrow>
              (case map_of (paperNodes net) neighbor of
                 None \<Rightarrow> Inl TypeError
               | Some neighborPaper \<Rightarrow>
                   if js_gt (calculatePaperSimilarity currentPaper neighborPaper) (Num (3 / 10))
                   then scanNeighbors net current rest
                          (set_add neighbor community, queue @ [neighbor], insert neighbor visited)
                   else scanNeighbors net current rest (community, queue, visited)))"

definition bfs_measure :: "network \<Rightarrow> bfs_state \<Rightarrow> nat" where
  "bfs_measure net st =
     card (snd ` set (edges (graph net)) - snd (snd st)) + length (fst (snd st))"

lemma bfs_measure_add:
  assumes "neighbor \<in> snd ` set (edges (graph net))" "neighbor \<notin> visited"
  shows "bfs_measure net (community', queue @ [neighbor], insert neighbor visited)
         = bfs_measure net (community, queue, visited)"
proof -
  let ?U = "snd ` set (edges (graph net))"
  have m: "neighbor \<in> ?U - visited" using assms by simp
  have e: "?U - insert neighbor visited = (?U - visited) - {neighbor}" by auto
  have f: "finite (?U - visited)" by simp
  have "Suc (card ((?U - visited) - {neighbor})) = card (?U - visited)"
    using f m by (rule card_Suc_Diff1)
  then have "card (?U - insert neighbor visited) + 1 = card (?U - visited)"
    by (simp only: e Suc_eq_plus1)
  then show ?thesis by (simp add: bfs_measure_def)
qed

lemma scanNeighbors_measure:
  "scanNeighbors net current nbs st = Inr st' \<Longrightarrow> set nbs \<subseteq> snd ` set (edges (graph net)) \<Longrightarrow>
   bfs_measure net st' = bfs_measure net st"
proof (induction net current nbs st rule: scanNeighbors.induct)
  case (1 net current st)
  then show ?case by simp
next
  case (2 net current neighbor rest community queue visited)
  have nb: "neighbor \<in> snd ` set (edges (graph net))"
    and rest: "set rest \<subseteq> snd ` set (edges (graph net))" using "2.prems"(2) by auto
  show ?case
  proof (cases "neighbor \<in> visited")
    case True
    with 2 rest show ?thesis by simp
  next
    case False
    then obtain p1 p2 where p: "map_of (paperNodes net) current = Some p1"
        "map_of (paperNodes net) neighbor = Some p2"
      using "2.prems"(1) by (auto split: option.splits)
    show ?thesis
    proof (cases "js_gt (calculatePaperSimilarity p1 p2) (Num (3 / 10))")
      case True
      have "scanNeighbors net current rest
              (set_add neighbor community, queue @ [neighbor], insert neighbor visited) = Inr st'"
        using "2.prems"(1) False p True by simp
      with "2.IH"(2) False p True rest
      have "bfs_measure net st'
            = bfs_measure net (set_add neighbor community, queue @ [neighbor], insert neighbor visited)"
        by blast
      then show ?thesis using bfs_measure_add[OF nb False] by simp
    next
      case F2: False
      have "scanNeighbors net current rest (community, queue, visited) = Inr st'"
        using "2.prems"(1) False p F2 by simp
      with "2.IH"(3) False p F2 rest show ?thesis by blast
    qed
  qed
qed

text \<open>The \<open>while\<close> loop over the queue.\<close>

function expandCommunity :: "network \<Rightarrow> bfs_state \<Rightarrow> error + (nodeId list \<times> nodeId set)" where
  "expandCommunity net (community, [], visited) = Inr (community, visited)"
| "expandCommunity net (community, current # queue, visited) =
     (case scanNeighbors net current (adjacent (graph net) current) (community, queue, visited) of
        Inl e \<Rightarrow> Inl e
      | Inr st \<Rightarrow> expandCommunity net st)"
  by pat_completeness auto
termination
proof (relation "measure (\<lambda>(net, st). bfs_measure net st)")
  show "wf (measure (\<lambda>(net, st). bfs_measure net st))" by simp
next
  fix net :: network and community current queue and visited :: "nodeId set" and st
  assume "scanNeighbors net current (adjacent (graph net) current) (community, queue, visited) = Inr st"
  moreover have "set (adjacent (graph net) current) \<subseteq> snd ` set (edges (graph net))"
    by (auto simp: adjacent_def)
  ultimately have "bfs_measure net st = bfs_measure net (community, queue, visited)"
    by (rule scanNeighbors_measure)
  then show "((net, st), (net, community, current # queue, visited))
             \<in> measure (\<lambda>(net, st). bfs_measure net st)"
    by (simp add: bfs_measure_def)
qed

text \<open>
  The \<open>for\<close> loop over the nodes. A group of at least three members is stored under
  the next community id.
\<close>

fun detectLoop :: "network \<Rightarrow> nodeId list \<Rightarrow> (nat \<times> nodeId list) list \<times> nat \<times> nodeId set
                   \<Rightarrow> error + ((nat \<times> nodeId list) list \<times> nat \<times> nodeId set)" where
  "detectLoop net [] st = Inr st"
| "detectLoop net (node # rest) (communities, communityId, visited) =
     (if node \<in> visited then detectLoop net rest (communities, communityId, visited)
      else case expandCommunity net ([node], [node], insert node visited) of
             Inl e \<Rightarrow> Inl e
           | Inr (community, visited') \<Rightarrow>
               if length community \<ge> 3
               then detectLoop net rest
                      (communities @ [(communityId, community)], communityId + 1, visited')
               else detectLoop net rest (communities, communityId, visited'))"

text \<open>
  The analysis of one community. \<open>members.map(nodeId => paperNodes.get(nodeId))\<close> gives
  the member papers, and a member without a record makes the analysis throw. The record
  carries the id, the size and the members; the descriptive fields that the code adds
  (top categories and keywords, averages, time span, top papers) are functions of the
  member papers alone and are left out.
\<close>

record communityAnalysis =
  cm_id :: nat
  cm_size :: nat
  cm_members :: "nodeId list"

fun memberPapersOf :: "network \<Rightarrow> nodeId list \<Rightarrow> paper list option" where
  "memberPapersOf net [] = Some []"
| "memberPapersOf net (nodeId # rest) =
     (case map_of (paperNodes net) nodeId of
        None \<Rightarrow> None
      | Some p \<Rightarrow> (case memberPapersOf net rest of None \<Rightarrow> None | Some ps \<Rightarrow> Some (p # ps)))"

definition analyseCommunity :: "network \<Rightarrow> nat \<times> nodeId list \<Rightarrow> error + communityAnalysis" where
  "analyseCommunity net c =
     (case memberPapersOf net (snd c) of
        None \<Rightarrow> Inl TypeError
      | Some memberPapers \<Rightarrow>
          Inr \<lparr>cm_id = fst c, cm_size = length (snd c), cm_members = snd c\<rparr>)"

fun analyseAll :: "network \<Rightarrow> (nat \<times> nodeId list) list \<Rightarrow> error + communityAnalysis list" where
  "analyseAll net [] = Inr []"
| "analyseAll net (c # cs) =
     (case analyseCommunity net c of
        Inl e \<Rightarrow> Inl e
      | Inr a \<Rightarrow> (case analyseAll net cs of Inl e \<Rightarrow> Inl e | Inr as \<Rightarrow> Inr (a # as)))"

record communityReport =
  cr_count :: nat
  cr_communities :: "communityAnalysis list"

text \<open>
  \<open>Array.prototype.sort\<close> is stable; with the comparator \<open>(a, b) => b.size - a.size\<close>
  it sorts by descending size.
\<close>

definition detectCommunities :: "network \<Rightarrow> error + communityReport" where
  "detectCommunities net =
     (case detectLoop net (nodes (graph net)) ([], 0, {}) of
        Inl e \<Rightarrow> Inl e
      | Inr (communities, communityId, visited) \<Rightarrow>
          (case analyseAll net communities of
             Inl e \<Rightarrow> Inl e
           | Inr communityAnalysis \<Rightarrow>
               Inr \<lparr>cr_count = length communities,
                    cr_communities = sort_key (\<lambda>a. - int (cm_size a)) communityAnalysis\<rparr>))"

section \<open>findConnectedComponents\<close>

text \<open>
  The recursive \<open>dfs\<close> visits a node, then each neighbour (outgoing first, then incoming)
  that is still unvisited when its turn comes. The pending neighbour lists of the
  recursion are kept as an explicit stack: a popped node that has been visited in the
  meantime is skipped, which is the test the recursion makes before each call.
\<close>

definition endpoints :: "digraph \<Rightarrow> nodeId set" where
  "endpoints g = fst ` set (edges g) \<union> snd ` set (edges g)"

definition dfs_measure :: "digraph \<Rightarrow> nodeId list \<Rightarrow> nodeId set \<Rightarrow> nat" where
  "dfs_measure g stack visited = card ((endpoints g \<union> set stack) - visited)"

lemma dfs_measure_skip: "dfs_measure g stack visited \<le> dfs_measure g (node # stack) visited"
  unfolding dfs_measure_def by (intro card_mono) (auto simp: endpoints_def)

lemma dfs_measure_visit:
  assumes "node \<notin> visited" "set nbs \<subseteq> endpoints g"
  shows "dfs_measure g (nbs @ stack) (insert node visited) < dfs_measure g (node # stack) visited"
  unfolding dfs_measure_def
proof (rule psubset_card_mono)
  show "finite ((endpoints g \<union> set (node # stack)) - visited)"
    by (simp add: endpoints_def)
  show "(endpoints g \<union> set (nbs @ stack)) - insert node visited
        \<subset> (endpoints g \<union> set (node # stack)) - visited"
    using assms by auto
qed

function dfs :: "digraph \<Rightarrow> nodeId list \<Rightarrow> nodeId set \<times> nodeId list \<Rightarrow> nodeId set \<times> nodeId list" where
  "dfs g [] (visited, component) = (visited, component)"
| "dfs g (node # stack) (visited, component) =
     (if node \<in> visited then dfs g stack (visited, component)
      else dfs g (adjacent g node @ adjacentReverse g node @ stack)
             (insert node visited, component @ [node]))"
  by pat_completeness auto
termination
proof (relation "measures [\<lambda>(g, stack, visited, component). dfs_measure g stack visited,
                           \<lambda>(g, stack, visited, component). length stack]")
  show "wf (measures [\<lambda>(g, stack, visited, component). dfs_measure g stack visited,
                      \<lambda>(g, stack, visited, component). length stack])"
    by simp
next
  fix g :: digraph and node stack and visited :: "nodeId set" and component :: "nodeId list"
  show "((g, stack, visited, component), (g, node # stack, visited, component))
        \<in> measures [\<lambda>(g, stack, visited, component). dfs_measure g stack visited,
                     \<lambda>(g, stack, visited, component). length stack]"
    using dfs_measure_skip[of g stack visited node] by auto
  assume nv: "node \<notin> visited"
  have "set (adjacent g node @ adjacentReverse g node) \<subseteq> endpoints g"
    by (auto simp: adjacent_def adjacentReverse_def endpoints_def)
  from dfs_measure_visit[OF nv this, of stack]
  show "((g, adjacent g node @ adjacentReverse g node @ stack, insert node visited, component @ [node]),
         (g, node # stack, visited, component))
        \<in> measures [\<lambda>(g, stack, visited, component). dfs_measure g stack visited,
                     \<lambda>(g, stack, visited, component). length stack]"
    by simp
qed

fun componentsLoop :: "digraph \<Rightarrow> nodeId list \<Rightarrow> nodeId set \<times> nodeId list list
                       \<Rightarrow> nodeId set \<times> nodeId list list" where
  "componentsLoop g [] st = st"
| "componentsLoop g (node # rest) (visited, components) =
     (if node \<in> visited then componentsLoop g rest (visited, components)
      else let r = dfs g [node] (visited, []) in
           componentsLoop g rest (fst r, components @ [snd r]))"

record componentReport =
  cp_count :: nat
  cp_sizes :: "nat list"
  cp_largest :: jsnum
  cp_components :: "nodeId list list"

definition findConnectedComponents :: "digraph \<Rightarrow> componentReport" where
  "findConnectedComponents g =
     (let components = snd (componentsLoop g (nodes g) ({}, []))
      in \<lparr>cp_count = length components,
          cp_sizes = map length components,
          cp_largest = math_max (map (\<lambda>c. js_nat (length c)) components),
          cp_components = sort_key (\<lambda>c. - int (length c)) components\<rparr>)"

section \<open>calculateNetworkMetrics\<close>

record networkMetrics =
  basic :: basicMetrics
  centrality :: centralityMetrics
  clustering :: clusteringMetrics
  components :: componentReport
  communities :: communityReport

definition calculateNetworkMetrics :: "network \<Rightarrow> error + networkMetrics" where
  "calculateNetworkMetrics net =
     (if length (nodes (graph net)) = 0 then Inl NotBuilt
      else case detectCommunities net of
             Inl e \<Rightarrow> Inl e
           | Inr cs \<Rightarrow>
               Inr \<lparr>basic = calculateBasicMetrics net,
                    centrality = calculateCentralityMetrics net,
                    clustering = calculateClusteringMetrics net,
                    components = findConnectedComponents (graph net),
                    communities = cs\<rparr>)"

section \<open>identifySeminalPapers\<close>













section \<open>exportNetworkData\<close>

text \<open>
  A node of the export is \<open>{id: nodeId, ...paperNodes.get(nodeId)}\<close> and an edge is
  \<open>{source, target, ...citationEdges.get(key)}\<close>: the fields of the stored record, when
  there is one, override the ones written first.
\<close>

record exportNode =
  en_id :: nodeId
  en_paper :: "paper option"

record exportEdge =
  ee_source :: nodeId
  ee_target :: nodeId
  ee_attrs :: "citationEdge option"

record networkData =
  nd_nodes :: "exportNode list"
  nd_edges :: "exportEdge list"
  nd_nodeCount :: nat
  nd_edgeCount :: nat
  nd_generatedAt :: string

definition exportNodeOf :: "network \<Rightarrow> nodeId \<Rightarrow> exportNode" where
  "exportNodeOf net nodeId =
     (let p = map_of (paperNodes net) nodeId
      in \<lparr>en_id = (case p of None \<Rightarrow> nodeId | Some q \<Rightarrow> paper_id q), en_paper = p\<rparr>)"

definition exportEdgeOf :: "network \<Rightarrow> nodeId \<times> nodeId \<Rightarrow> exportEdge" where
  "exportEdgeOf net e =
     (let a = map_of (citationEdges net) (edgeKey (fst e) (snd e))
      in \<lparr>ee_source = (case a of None \<Rightarrow> fst e | Some ce \<Rightarrow> ce_source ce),
          ee_target = (case a of None \<Rightarrow> snd e | Some ce \<Rightarrow> ce_target ce),
          ee_attrs = a\<rparr>)"

definition exportData :: "string \<Rightarrow> network \<Rightarrow> networkData" where
  "exportData generatedAt net =
     (let ns = map (exportNodeOf net) (nodes (graph net));
          es = map (exportEdgeOf net) (edges (graph net))
      in \<lparr>nd_nodes = ns, nd_edges = es, nd_nodeCount = length ns, nd_edgeCount = length es,
          nd_generatedAt = generatedAt\<rparr>)"

text \<open>The double quote character, and a template value between double quotes.\<close>

definition dq :: char where
  "dq = CHR 0x22"

definition quoted :: "string \<Rightarrow> string" where
  "quoted s = dq # s @ [dq]"

text \<open>\<open>s.replace(/"/g, "&quot;")\<close>.\<close>

definition replaceQuotes :: "string \<Rightarrow> string" where
  "replaceQuotes s = concat (map (\<lambda>c. if c = dq then ''&quot;'' else [c]) s)"

text \<open>
  The text that one iteration appends. \<open>toStr\<close> is the engine's conversion of a number
  to a string in a template literal, left as a parameter. A node without a stored
  record has no \<open>title\<close>, and \<open>replace\<close> on it throws.
\<close>

definition gexfNodeText :: "(rat \<Rightarrow> string) \<Rightarrow> nodeId \<Rightarrow> paper \<Rightarrow> string" where
  "gexfNodeText toStr i p =
     ''<node id='' @ quoted i @ '' label='' @ quoted (replaceQuotes (title p)) @ ''>\<newline>''
     @ ''<attvalues>\<newline>''
     @ ''<attvalue for='' @ quoted ''citationCount'' @ '' value=''
       @ quoted (toStr (citationCount p)) @ ''/>\<newline>''
     @ ''<attvalue for='' @ quoted ''impactScore'' @ '' value=''
       @ quoted (toStr (impactScore p)) @ ''/>\<newline>''
     @ ''</attvalues>\<newline>''
     @ ''</node>\<newline>''"

definition gexfNode :: "(rat \<Rightarrow> string) \<Rightarrow> exportNode \<Rightarrow> error + string" where
  "gexfNode toStr node =
     (case en_paper node of
        None \<Rightarrow> Inl TypeError
      | Some p \<Rightarrow> Inr (gexfNodeText toStr (en_id node) p))"

fun gexfNodes :: "(rat \<Rightarrow> string) \<Rightarrow> exportNode list \<Rightarrow> string \<Rightarrow> error + string" where
  "gexfNodes toStr [] gexf = Inr gexf"
| "gexfNodes toStr (node # rest) gexf =
     (case gexfNode toStr node of
        Inl e \<Rightarrow> Inl e
      | Inr s \<Rightarrow> gexfNodes toStr rest (gexf @ s))"

definition gexfEdge :: "(rat \<Rightarrow> string) \<Rightarrow> nat \<times> exportEdge \<Rightarrow> string" where
  "gexfEdge toStr ie =
     ''<edge id='' @ quoted (toStr (of_nat (fst ie))) @ '' source='' @ quoted (ee_source (snd ie))
       @ '' target='' @ quoted (ee_target (snd ie)) @ ''/>\<newline>''"

definition gexfHeader :: string where
  "gexfHeader =
     ''<?xml version='' @ quoted ''1.0'' @ '' encoding='' @ quoted ''UTF-8'' @ ''?>\<newline>''
     @ ''<gexf xmlns='' @ quoted ''http://www.gexf.net/1.2draft'' @ '' version=''
       @ quoted ''1.2'' @ ''>\<newline>''
     @ ''<graph mode='' @ quoted ''static'' @ '' defaultedgetype='' @ quoted ''directed''
       @ ''>\<newline>''
     @ ''<nodes>\<newline>''"

definition gexfFooter :: string where
  "gexfFooter = ''</edges>\<newline>'' @ ''</graph>\<newline>'' @ ''</gexf>''"

definition convertToGEXF :: "(rat \<Rightarrow> string) \<Rightarrow> networkData \<Rightarrow> error + string" where
  "convertToGEXF toStr networkData =
     (case gexfNodes toStr (nd_nodes networkData) gexfHeader of
        Inl e \<Rightarrow> Inl e
      | Inr gexf1 \<Rightarrow>
          let gexf2 = gexf1 @ ''</nodes>\<newline>'' @ ''<edges>\<newline>'';
              gexf3 = fold (\<lambda>ie acc. acc @ gexfEdge toStr ie)
                        (enumerate 0 (nd_edges networkData)) gexf2
          in Inr (gexf3 @ gexfFooter))"

definition graphmlNode :: "exportNode \<Rightarrow> string" where
  "graphmlNode node = ''<node id='' @ quoted (en_id node) @ ''/>\<newline>''"

definition graphmlEdge :: "(rat \<Rightarrow> string) \<Rightarrow> nat \<times> exportEdge \<Rightarrow> string" where
  "graphmlEdge toStr ie =
     ''<edge id='' @ quoted (''e'' @ toStr (of_nat (fst ie))) @ '' source=''
       @ quoted (ee_source (snd ie)) @ '' target='' @ quoted (ee_target (snd ie))
       @ ''/>\<newline>''"

definition graphmlHeader :: string where
  "graphmlHeader =
     ''<?xml version='' @ quoted ''1.0'' @ '' encoding='' @ quoted ''UTF-8'' @ ''?>\<newline>''
     @ ''<graphml xmlns='' @ quoted ''http://graphml.graphdrawing.org/xmlns'' @ ''>\<newline>''
     @ ''<graph id='' @ quoted ''CitationNetwork'' @ '' edgedefault='' @ quoted ''directed''
       @ ''>\<newline>''"

definition graphmlFooter :: string where
  "graphmlFooter = ''</graph>\<newline>'' @ ''</graphml>''"

definition convertToGraphML :: "(rat \<Rightarrow> string) \<Rightarrow> networkData \<Rightarrow> string" where
  "convertToGraphML toStr networkData =
     (let graphml1 = fold (\<lambda>node acc. acc @ graphmlNode node) (nd_nodes networkData)
                       graphmlHeader;
          graphml2 = fold (\<lambda>ie acc. acc @ graphmlEdge toStr ie)
                       (enumerate 0 (nd_edges networkData)) graphml1
      in graphml2 @ graphmlFooter)"

datatype exported = Json networkData | Xml string

definition exportNetworkData ::
  "(rat \<Rightarrow> string) \<Rightarrow> string \<Rightarrow> network \<Rightarrow> string \<Rightarrow> error + exported" where
  "exportNetworkData toStr generatedAt net format =
     (let networkData = exportData generatedAt net
      in if format = ''json'' then Inr (Json networkData)
         else if format = ''gexf''
         then (case convertToGEXF toStr networkData of
                 Inl e \<Rightarrow> Inl e
               | Inr s \<Rightarrow> Inr (Xml s))
         else if format = ''graphml'' then Inr (Xml (convertToGraphML toStr networkData))
         else Inr (Json networkData))"

section \<open>Example inputs\<close>

text \<open>
  Small stores used to run the engine on concrete inputs: three papers with the same
  category, keyword and author; the scenario \<open>a \<rightarrow> b, b \<rightarrow> c, a \<rightarrow> c\<close>; a cycle; a
  single paper. \<open>renderNumber\<close> writes an integer-valued number in decimal and is the
  \<open>toStr\<close> of the examples.
\<close>

definition mkPaper :: "nodeId \<Rightarrow> string list \<Rightarrow> string list \<Rightarrow> string list \<Rightarrow> paper" where
  "mkPaper i cats kws auths =
     \<lparr>paper_id = i, title = ''Paper '' @ i,
      authors = map (\<lambda>a. \<lparr>name = a, affiliation = ''''\<rparr>) auths,
      publishedYear = 2015, citationCount = 60, impactScore = 5,
      categories = cats, paper_keywords = kws\<rparr>"

definition cite :: "nodeId \<Rightarrow> nodeId \<Rightarrow> citation" where
  "cite s t = \<lparr>citingPaper = s, citedPaper = t, c_citationType = ''direct'',
               c_sentiment = ''neutral'', c_strength = 1, c_context = ''''\<rparr>"

definition abc_papers :: "paper list" where
  "abc_papers = [mkPaper ''a'' [''ml''] [''k''] [''Ann''], mkPaper ''b'' [''ml''] [''k''] [''Ann''],
                 mkPaper ''c'' [''ml''] [''k''] [''Ann'']]"

definition triangle_net :: network where
  "triangle_net = buildNetwork abc_papers [cite ''a'' ''b'', cite ''b'' ''c'', cite ''a'' ''c'']"

definition cycle_net :: network where
  "cycle_net = buildNetwork abc_papers [cite ''a'' ''b'', cite ''b'' ''c'', cite ''c'' ''a'']"

definition single_net :: network where
  "single_net = buildNetwork [mkPaper ''a'' [''ml''] [''k''] [''Ann'']] []"

fun natToString :: "nat \<Rightarrow> string" where
  "natToString n = (if n < 10 then [''0123456789'' ! n]
                    else natToString (n div 10) @ [''0123456789'' ! (n mod 10)])"

declare natToString.simps [simp del]

definition renderNumber :: "rat \<Rightarrow> string" where
  "renderNumber r = (if r < 0 then ''-'' else []) @ natToString (nat \<lfloor>\<bar>r\<bar>\<rfloor>)"

text \<open>
  The citation records that the build turns into edges, and the key under which a record
  is stored; two duplicate citations; two papers that share one of three categories,
  keywords and authors.
\<close>

definition accepted :: "paper list \<Rightarrow> citation list \<Rightarrow> citation list" where
  "accepted papers citations =
     filter (\<lambda>c. citingPaper c \<in> paper_id ` set papers \<and> citedPaper c \<in> paper_id ` set papers)
       citations"

definition citationKey :: "citation \<Rightarrow> string" where
  "citationKey c = edgeKey (citingPaper c) (citedPaper c)"

definition dup_papers :: "paper list" where
  "dup_papers = [mkPaper ''a'' [''ml''] [''k''] [''Ann''], mkPaper ''b'' [''ml''] [''k''] [''Bob'']]"

definition dup_citations :: "citation list" where
  "dup_citations = [cite ''a'' ''b'', (cite ''a'' ''b'')\<lparr>c_context := ''again''\<rparr>]"







text \<open>A paper whose title holds reserved XML characters, alone in its network.\<close>

definition xml_paper :: paper where
  "xml_paper = (mkPaper ''p1'' [''ml''] [''k''] [''Ann''])\<lparr>title := ''A&B<C''\<rparr>"

definition xml_net :: network where
  "xml_net = buildNetwork [xml_paper] []"

section \<open>The similarity as the spec words it\<close>



section \<open>Entity escaping as the spec words it\<close>

text \<open>
  Following the spec's words, for comparison with the label written by
  \<open>convertToGEXF\<close>: an attribute value is entity-escaped, each reserved XML character
  replaced by its entity.
\<close>

definition xmlEscape_spec :: "string \<Rightarrow> string" where
  "xmlEscape_spec s =
     concat (map (\<lambda>c. if c = CHR ''&'' then ''&amp;''
                       else if c = CHR ''<'' then ''&lt;''
                       else if c = CHR ''>'' then ''&gt;''
                       else if c = dq then ''&quot;''
                       else if c = CHR 0x27 then ''&apos;''
                       else [c]) s)"

section \<open>Predicates used in the proofs\<close>

text \<open>
  \<open>fin_on t ns\<close>: the table holds a finite, non-negative number under every key of
  \<open>ns\<close>; \<open>tsum t ns\<close>: the sum of these numbers; \<open>fwd\<close>: the score a node passes on
  in one iteration; \<open>auth_inv\<close>: the invariant of the authority loop.
\<close>

text \<open>
  \<open>has_papers\<close>: the graph is well formed and every node has its record in
  \<open>paperNodes\<close>; \<open>community_ok\<close>: a group of at least three distinct nodes of the graph.
\<close>

definition has_papers :: "network \<Rightarrow> bool" where
  "has_papers net = (wf_graph (graph net) \<and> set (nodes (graph net)) \<subseteq> fst ` set (paperNodes net))"

definition community_ok :: "network \<Rightarrow> nodeId list \<Rightarrow> bool" where
  "community_ok net m = (set m \<subseteq> set (nodes (graph net)) \<and> distinct m \<and> 3 \<le> length m)"

definition fin_on :: "jsnum obj \<Rightarrow> nodeId list \<Rightarrow> bool" where
  "fin_on t ns = (\<forall>n\<in>set ns. \<exists>r. map_of t n = Some (Num r) \<and> 0 \<le> r)"

definition tsum :: "jsnum obj \<Rightarrow> nodeId list \<Rightarrow> rat" where
  "tsum t ns = sum_list (map (\<lambda>n. js_val (num_at t n)) ns)"

definition fwd :: "digraph \<Rightarrow> jsnum obj \<Rightarrow> nodeId \<Rightarrow> rat" where
  "fwd g scores n = (if 0 < outdegree g n then js_val (num_at scores n) else 0)"

definition auth_inv :: "digraph \<Rightarrow> jsnum obj \<times> jsnum obj \<Rightarrow> bool" where
  "auth_inv g st = (map fst (fst st) = nodes g \<and> fin_on (fst st) (nodes g)
                    \<and> tsum (fst st) (nodes g) = 1
                    \<and> distinct (map fst (snd st)) \<and> fst ` set (snd st) \<subseteq> set (nodes g))"



definition records_ok :: "network \<Rightarrow> bool" where
  "records_ok net = (map fst (paperNodes net) = nodes (graph net)
                     \<and> list_all (\<lambda>kv. paper_id (snd kv) = fst kv) (paperNodes net))"

section \<open>The invariant of a built network\<close>

lemma wf_graph_addNode: "wf_graph g \<Longrightarrow> wf_graph (addNode n g)"
  by (auto simp: wf_graph_def addNode_def)

lemma wf_graph_addEdge:
  "wf_graph g \<Longrightarrow> u \<in> set (nodes g) \<Longrightarrow> v \<in> set (nodes g) \<Longrightarrow> wf_graph (addEdge u v g)"
  by (auto simp: wf_graph_def addEdge_def addNode_def Let_def)

lemma graph_addPaper [simp]: "graph (addPaper p net) = addNode (paper_id p) (graph net)"
  by (simp add: addPaper_def)

lemma wf_fold_addPaper: "wf_graph (graph net) \<Longrightarrow> wf_graph (graph (fold addPaper ps net))"
  by (induction ps arbitrary: net) (simp_all add: wf_graph_addNode)

lemma wf_addCitation: "wf_graph (graph net) \<Longrightarrow> wf_graph (graph (addCitation c net))"
  by (simp add: addCitation_def Let_def hasNode_def wf_graph_addEdge)

lemma wf_fold_addCitation:
  "wf_graph (graph net) \<Longrightarrow> wf_graph (graph (fold addCitation cs net))"
  by (induction cs arbitrary: net) (simp_all add: wf_addCitation)

lemma wf_buildNetwork: "wf_graph (graph (buildNetwork papers citations))"
  unfolding buildNetwork_def
  by (intro wf_fold_addCitation wf_fold_addPaper)
     (simp add: emptyNetwork_def Graph_def wf_graph_def)

section \<open>Arithmetic on finite numbers, degree sums, clustering\<close>

lemma js_add_Num [simp]: "js_add (Num a) (Num b) = Num (a + b)"
  by (auto simp: js_add_def js_fin_def js_signed_zero_def)

lemma js_sub_Num [simp]: "js_sub (Num a) (Num b) = Num (a - b)"
  by (auto simp: js_sub_def js_add_def js_fin_def js_signed_zero_def)

lemma js_mul_Num: "0 \<le> a \<Longrightarrow> 0 \<le> b \<Longrightarrow> js_mul (Num a) (Num b) = Num (a * b)"
  by (auto simp: js_mul_def js_fin_def js_signed_zero_def)

lemma js_div_Num: "0 \<le> a \<Longrightarrow> 0 < b \<Longrightarrow> js_div (Num a) (Num b) = Num (a / b)"
  by (auto simp: js_div_def js_fin_def js_signed_zero_def)

lemma reduce_sum_eq: "reduce_sum xs = sum_list xs"
proof -
  have "foldl (\<lambda>a b. a + b) a xs = a + sum_list xs" for a
    by (induction xs arbitrary: a) simp_all
  then show ?thesis by (simp add: reduce_sum_def)
qed

lemma sum_list_indicator:
  "distinct ns \<Longrightarrow> sum_list (map (\<lambda>v. if x = v then (1::nat) else 0) ns) = (if x \<in> set ns then 1 else 0)"
  by (induction ns) auto

lemma sum_count_snd:
  "distinct ns \<Longrightarrow> snd ` set es \<subseteq> set ns \<Longrightarrow>
   sum_list (map (\<lambda>v. length (filter (\<lambda>e. snd e = v) es)) ns) = length es"
proof (induction es)
  case Nil
  then show ?case by simp
next
  case (Cons e es)
  have "sum_list (map (\<lambda>v. length (filter (\<lambda>e. snd e = v) (e # es))) ns)
        = sum_list (map (\<lambda>v. (if snd e = v then 1 else 0) + length (filter (\<lambda>e. snd e = v) es)) ns)"
    by (rule arg_cong[where f=sum_list]) simp
  also have "\<dots> = sum_list (map (\<lambda>v. if snd e = v then (1::nat) else 0) ns)
                  + sum_list (map (\<lambda>v. length (filter (\<lambda>e. snd e = v) es)) ns)"
    by (simp add: sum_list_addf)
  finally show ?case using Cons by (simp add: sum_list_indicator)
qed

lemma sum_count_fst:
  "distinct ns \<Longrightarrow> fst ` set es \<subseteq> set ns \<Longrightarrow>
   sum_list (map (\<lambda>v. length (filter (\<lambda>e. fst e = v) es)) ns) = length es"
proof (induction es)
  case Nil
  then show ?case by simp
next
  case (Cons e es)
  have "sum_list (map (\<lambda>v. length (filter (\<lambda>e. fst e = v) (e # es))) ns)
        = sum_list (map (\<lambda>v. (if fst e = v then 1 else 0) + length (filter (\<lambda>e. fst e = v) es)) ns)"
    by (rule arg_cong[where f=sum_list]) simp
  also have "\<dots> = sum_list (map (\<lambda>v. if fst e = v then (1::nat) else 0) ns)
                  + sum_list (map (\<lambda>v. length (filter (\<lambda>e. fst e = v) es)) ns)"
    by (simp add: sum_list_addf)
  finally show ?case using Cons by (simp add: sum_list_indicator)
qed

lemma sum_indegree: "wf_graph g \<Longrightarrow> sum_list (map (indegree g) (nodes g)) = length (edges g)"
  using sum_count_snd[of "nodes g" "edges g"] by (simp add: wf_graph_def indegree_def[abs_def])

lemma sum_outdegree: "wf_graph g \<Longrightarrow> sum_list (map (outdegree g) (nodes g)) = length (edges g)"
  using sum_count_fst[of "nodes g" "edges g"] by (simp add: wf_graph_def outdegree_def[abs_def])

lemma update_fresh: "k \<notin> fst ` set t \<Longrightarrow> AList.update k v t = t @ [(k, v)]"
  by (induction t) auto

lemma fold_update_fresh:
  "distinct ns \<Longrightarrow> set ns \<inter> fst ` set t = {} \<Longrightarrow>
   fold (\<lambda>node t. AList.update node (f node) t) ns t = t @ map (\<lambda>n. (n, f n)) ns"
proof (induction ns arbitrary: t)
  case Nil
  then show ?case by simp
next
  case (Cons n ns)
  have "AList.update n (f n) t = t @ [(n, f n)]"
    using Cons.prems by (intro update_fresh) auto
  moreover have "set ns \<inter> fst ` set (t @ [(n, f n)]) = {}"
    using Cons.prems by auto
  ultimately show ?case using Cons by simp
qed

lemma fold_update_table:
  "distinct ns \<Longrightarrow> fold (\<lambda>node t. AList.update node (f node) t) ns [] = map (\<lambda>n. (n, f n)) ns"
  using fold_update_fresh[of ns "[]" f] by simp



section \<open>The authority iteration keeps the total score\<close>

lemma num_at_update:
  "num_at (AList.update k v t) n = (if n = k then v else num_at t n)"
  by (simp add: num_at_def update_conv')

lemma sum_list_bump:
  "distinct ns \<Longrightarrow> k \<in> set ns \<Longrightarrow>
   sum_list (map (\<lambda>n. if n = k then f n + q else f n) ns) = sum_list (map f ns) + (q::rat)"
proof (induction ns)
  case Nil
  then show ?case by simp
next
  case (Cons a ns)
  show ?case
  proof (cases "a = k")
    case True
    then have "k \<notin> set ns" using Cons.prems by simp
    then have "sum_list (map (\<lambda>n. if n = k then f n + q else f n) ns) = sum_list (map f ns)"
      by (intro arg_cong[where f=sum_list] map_cong) auto
    then show ?thesis using True by simp
  next
    case False
    then show ?thesis using Cons by simp
  qed
qed

lemma addContribution_fin:
  assumes "fin_on t ns" "0 \<le> q"
  shows "fin_on (addContribution (Num q) nb t) ns"
  unfolding fin_on_def
proof
  fix n assume n: "n \<in> set ns"
  then obtain r where r: "map_of t n = Some (Num r)" "0 \<le> r"
    using assms(1) by (auto simp: fin_on_def)
  show "\<exists>r. map_of (addContribution (Num q) nb t) n = Some (Num r) \<and> 0 \<le> r"
  proof (cases "n = nb")
    case True
    then have "map_of (addContribution (Num q) nb t) n = Some (Num (r + q))"
      using r by (simp add: addContribution_def update_conv' num_at_def)
    then show ?thesis using r assms(2) by simp
  next
    case False
    then show ?thesis using r by (simp add: addContribution_def update_conv')
  qed
qed

lemma addContribution_tsum:
  assumes "fin_on t ns" "distinct ns" "nb \<in> set ns"
  shows "tsum (addContribution (Num q) nb t) ns = tsum t ns + q"
proof -
  obtain r where r: "map_of t nb = Some (Num r)"
    using assms(1,3) by (auto simp: fin_on_def)
  have "sum_list (map (\<lambda>n. js_val (num_at (addContribution (Num q) nb t) n)) ns)
        = sum_list (map (\<lambda>n. if n = nb then js_val (num_at t n) + q else js_val (num_at t n)) ns)"
    using r by (intro arg_cong[where f=sum_list] map_cong)
      (auto simp: addContribution_def num_at_update, simp add: num_at_def)
  then show ?thesis
    using sum_list_bump[OF assms(2,3), of "\<lambda>n. js_val (num_at t n)" q] by (simp add: tsum_def)
qed

lemma fold_addContribution:
  assumes "distinct ns" "0 \<le> q"
  shows "fin_on t ns \<Longrightarrow> set nbs \<subseteq> set ns \<Longrightarrow>
         fin_on (fold (addContribution (Num q)) nbs t) ns \<and>
         tsum (fold (addContribution (Num q)) nbs t) ns = tsum t ns + q * of_nat (length nbs)"
proof (induction nbs arbitrary: t)
  case Nil
  then show ?case by simp
next
  case (Cons nb nbs)
  have f: "fin_on (addContribution (Num q) nb t) ns"
    using Cons.prems(1) assms(2) by (rule addContribution_fin)
  have s: "tsum (addContribution (Num q) nb t) ns = tsum t ns + q"
    using Cons.prems assms(1) by (intro addContribution_tsum) auto
  have "set nbs \<subseteq> set ns" using Cons.prems by simp
  from Cons.IH[OF f this] s show ?case by (simp add: algebra_simps)
qed

lemma adjacent_subset: "wf_graph g \<Longrightarrow> set (adjacent g n) \<subseteq> set (nodes g)"
  by (auto simp: wf_graph_def adjacent_def)

lemma length_adjacent: "length (adjacent g n) = outdegree g n"
  by (simp add: adjacent_def outdegree_def)

lemma distribute_step:
  assumes wf: "wf_graph g" and d: "0 \<le> d" and sc: "fin_on scores (nodes g)"
    and n: "node \<in> set (nodes g)" and t: "fin_on t (nodes g)"
  shows "fin_on (distribute g (Num d) scores node t) (nodes g) \<and>
         tsum (distribute g (Num d) scores node t) (nodes g) = tsum t (nodes g) + d * fwd g scores node"
proof (cases "0 < outdegree g node")
  case False
  then show ?thesis using t by (simp add: distribute_def fwd_def)
next
  case True
  obtain s where s: "map_of scores node = Some (Num s)" "0 \<le> s"
    using sc n by (auto simp: fin_on_def)
  define k where "k = outdegree g node"
  have k: "0 < k" using True by (simp add: k_def)
  have c: "js_div (js_mul (Num d) (num_at scores node)) (js_nat k) = Num (d * s / of_nat k)"
    using s d k by (simp add: num_at_def js_mul_Num js_div_Num js_nat_def)
  have q: "0 \<le> d * s / of_nat k" using s d by simp
  have dist: "distribute g (Num d) scores node t
              = fold (addContribution (Num (d * s / of_nat k))) (adjacent g node) t"
    using True c by (simp add: distribute_def Let_def k_def)
  have "distinct (nodes g)" using wf by (simp add: wf_graph_def)
  from fold_addContribution[OF this q t adjacent_subset[OF wf, of node]]
  show ?thesis
    using k s by (simp add: dist length_adjacent k_def[symmetric] fwd_def num_at_def)
qed

lemma fold_distribute:
  assumes wf: "wf_graph g" and d: "0 \<le> d" and sc: "fin_on scores (nodes g)"
  shows "set xs \<subseteq> set (nodes g) \<Longrightarrow> fin_on t (nodes g) \<Longrightarrow>
         fin_on (fold (distribute g (Num d) scores) xs t) (nodes g) \<and>
         tsum (fold (distribute g (Num d) scores) xs t) (nodes g)
           = tsum t (nodes g) + d * sum_list (map (fwd g scores) xs)"
proof (induction xs arbitrary: t)
  case Nil
  then show ?case by simp
next
  case (Cons x xs)
  have x: "x \<in> set (nodes g)" and xs: "set xs \<subseteq> set (nodes g)" using Cons.prems by auto
  from distribute_step[OF wf d sc x Cons.prems(2)]
  have f: "fin_on (distribute g (Num d) scores x t) (nodes g)"
    and s: "tsum (distribute g (Num d) scores x t) (nodes g) = tsum t (nodes g) + d * fwd g scores x"
    by auto
  from Cons.IH[OF xs f] s show ?case by (simp add: algebra_simps)
qed

lemma map_of_fold_update:
  "map_of (fold (\<lambda>node t. AList.update node (f node) t) ns t) n
   = (if n \<in> set ns then Some (f n) else map_of t n)"
  by (induction ns arbitrary: t) (auto simp: update_conv')

lemma map_fst_update_present: "k \<in> fst ` set t \<Longrightarrow> map fst (AList.update k v t) = map fst t"
  by (induction t) auto

lemma map_of_object_assign:
  "distinct (map fst src) \<Longrightarrow> map_of (object_assign t src) = map_of t ++ map_of src"
  unfolding object_assign_def
proof (induction src arbitrary: t)
  case Nil
  then show ?case by simp
next
  case (Cons kv src)
  have nk: "map_of src (fst kv) = None" using Cons.prems by (auto simp: map_of_eq_None_iff)
  have "map_of (fold (\<lambda>kv. AList.update (fst kv) (snd kv)) src (AList.update (fst kv) (snd kv) t))
        = map_of (AList.update (fst kv) (snd kv) t) ++ map_of src"
    using Cons by simp
  also have "\<dots> = map_of t ++ map_of (kv # src)"
    using nk by (cases kv) (auto simp: update_conv' map_add_def fun_eq_iff split: option.splits)
  finally show ?case by (simp only: fold.simps o_apply)
qed

lemma map_fst_object_assign:
  "fst ` set src \<subseteq> fst ` set t \<Longrightarrow> map fst (object_assign t src) = map fst t"
  unfolding object_assign_def
proof (induction src arbitrary: t)
  case Nil
  then show ?case by simp
next
  case (Cons kv src)
  have "map fst (AList.update (fst kv) (snd kv) t) = map fst t"
    using Cons.prems by (intro map_fst_update_present) auto
  moreover from this have "fst ` set src \<subseteq> fst ` set (AList.update (fst kv) (snd kv) t)"
    using Cons.prems by (metis list.set_map set_subset_Cons subset_trans image_mono)
  ultimately show ?case using Cons.IH by simp
qed

lemma keys_fold_update:
  "fst ` set (fold (\<lambda>node t. AList.update node (f node) t) ns t) = set ns \<union> fst ` set t"
  by (induction ns arbitrary: t) (auto simp: dom_update)

lemma distinct_fold_update:
  "distinct (map fst t) \<Longrightarrow> distinct (map fst (fold (\<lambda>node t. AList.update node (f node) t) ns t))"
  by (induction ns arbitrary: t) (simp_all add: distinct_update)

lemma keys_fold_addContribution:
  "fst ` set (fold (addContribution c) nbs t) = set nbs \<union> fst ` set t"
  by (induction nbs arbitrary: t) (auto simp: addContribution_def dom_update)

lemma distinct_fold_addContribution:
  "distinct (map fst t) \<Longrightarrow> distinct (map fst (fold (addContribution c) nbs t))"
  by (induction nbs arbitrary: t) (simp_all add: addContribution_def distinct_update)

lemma keys_distribute:
  "wf_graph g \<Longrightarrow> fst ` set (distribute g d scores node t) \<subseteq> set (nodes g) \<union> fst ` set t"
  using adjacent_subset[of g node]
  by (auto simp: distribute_def Let_def keys_fold_addContribution)

lemma distinct_distribute:
  "distinct (map fst t) \<Longrightarrow> distinct (map fst (distribute g d scores node t))"
  by (simp add: distribute_def Let_def distinct_fold_addContribution)

lemma keys_fold_distribute:
  "wf_graph g \<Longrightarrow> fst ` set (fold (distribute g d scores) xs t) \<subseteq> set (nodes g) \<union> fst ` set t"
proof (induction xs arbitrary: t)
  case Nil
  then show ?case by simp
next
  case (Cons x xs)
  from Cons.IH[OF Cons.prems, of "distribute g d scores x t"] keys_distribute[OF Cons.prems, of d scores x t]
  show ?case by auto
qed

lemma distinct_fold_distribute:
  "distinct (map fst t) \<Longrightarrow> distinct (map fst (fold (distribute g d scores) xs t))"
  by (induction xs arbitrary: t) (simp_all add: distinct_distribute)

lemma num_at_keys:
  "distinct (map fst t) \<Longrightarrow> map (num_at t) (map fst t) = map snd t"
proof (induction t)
  case Nil
  then show ?case by simp
next
  case (Cons kv t)
  have "num_at (kv # t) x = num_at t x" if "x \<in> set (map fst t)" for x
  proof -
    have "x \<noteq> fst kv" using that Cons.prems by force
    then show ?thesis by (cases kv) (simp add: num_at_def)
  qed
  then have "map (num_at (kv # t)) (map fst t) = map (num_at t) (map fst t)"
    by (intro map_cong) simp_all
  then show ?case using Cons by (simp add: num_at_def)
qed

lemma js_sum_Num:
  "\<forall>x\<in>set xs. \<exists>r. x = Num r \<Longrightarrow> js_sum xs = Num (sum_list (map js_val xs))"
proof -
  have "\<forall>x\<in>set xs. \<exists>r. x = Num r \<Longrightarrow> foldl js_add (Num a) xs = Num (a + sum_list (map js_val xs))" for a
    by (induction xs arbitrary: a) (auto simp: add.assoc)
  then show "\<forall>x\<in>set xs. \<exists>r. x = Num r \<Longrightarrow> js_sum xs = Num (sum_list (map js_val xs))"
    by (simp add: js_sum_def)
qed

lemma js_sum_table:
  assumes "map fst t = ns" "distinct ns" "fin_on t ns"
  shows "js_sum (obj_values t) = Num (tsum t ns)"
proof -
  have v: "obj_values t = map (num_at t) ns"
    using num_at_keys[of t] assms(1,2) by (simp add: obj_values_def)
  have "\<forall>x\<in>set (map (num_at t) ns). \<exists>r. x = Num r"
    using assms(3) by (auto simp: fin_on_def num_at_def)
  from js_sum_Num[OF this] show ?thesis by (simp add: v tsum_def comp_def)
qed

lemma tsum_const:
  "(\<And>n. n \<in> set ns \<Longrightarrow> map_of t n = Some (Num c)) \<Longrightarrow> tsum t ns = of_nat (length ns) * c"
proof -
  assume a: "\<And>n. n \<in> set ns \<Longrightarrow> map_of t n = Some (Num c)"
  have "sum_list (map (\<lambda>n. js_val (num_at t n)) ns) = sum_list (map (\<lambda>n. c) ns)"
    using a by (intro arg_cong[where f=sum_list] map_cong) (auto simp: num_at_def)
  then show ?thesis by (simp add: tsum_def sum_list_replicate map_replicate_const)
qed

lemma authorityIteration_inv:
  assumes wf: "wf_graph g" and ne: "nodes g \<noteq> []" and d: "0 \<le> d" "d \<le> 1"
    and nosink: "\<forall>n\<in>set (nodes g). 0 < outdegree g n"
    and inv: "auth_inv g st"
  shows "auth_inv g (authorityIteration g (Num d) st)"
proof -
  define ns where "ns = nodes g"
  define c where "c = (1 - d) / of_nat (length ns)"
  define t1 where "t1 = fold (\<lambda>node t. AList.update node
                          (js_div (js_sub (Num 1) (Num d)) (js_nat (length ns))) t) ns (snd st)"
  define t2 where "t2 = fold (distribute g (Num d) (fst st)) ns t1"
  have dist: "distinct ns" using wf by (simp add: wf_graph_def ns_def)
  have N: "0 < length ns" using ne by (simp add: ns_def)
  have cval: "js_div (Num (1 - d)) (js_nat (length ns)) = Num c"
    using d N by (simp add: js_nat_def js_div_Num c_def)
  have c0: "0 \<le> c" using d by (simp add: c_def)
  have t1_at: "map_of t1 n = Some (Num c)" if "n \<in> set ns" for n
    using that by (simp add: t1_def map_of_fold_update cval)
  have t1_fin: "fin_on t1 (nodes g)"
    using t1_at c0 by (auto simp: fin_on_def ns_def)
  have t1_sum: "tsum t1 (nodes g) = 1 - d"
    using tsum_const[of ns t1 c] t1_at N by (simp add: c_def ns_def)
  have sc: "fin_on (fst st) (nodes g)" and one: "tsum (fst st) (nodes g) = 1"
    and keys: "map fst (fst st) = nodes g"
    and dk: "distinct (map fst (snd st))" and sub: "fst ` set (snd st) \<subseteq> set (nodes g)"
    using inv by (auto simp: auth_inv_def)
  from fold_distribute[OF wf d(1) sc, of ns t1] t1_fin
  have t2_fin: "fin_on t2 (nodes g)"
    and t2_sum: "tsum t2 (nodes g) = tsum t1 (nodes g) + d * sum_list (map (fwd g (fst st)) ns)"
    by (auto simp: t2_def ns_def)
  have "sum_list (map (fwd g (fst st)) ns) = sum_list (map (\<lambda>n. js_val (num_at (fst st) n)) ns)"
    using nosink by (intro arg_cong[where f=sum_list] map_cong) (auto simp: fwd_def ns_def)
  then have "sum_list (map (fwd g (fst st)) ns) = 1"
    using one by (simp add: tsum_def ns_def)
  then have t2_one: "tsum t2 (nodes g) = 1" using t2_sum t1_sum by simp
  have t1_dk: "distinct (map fst t1)" unfolding t1_def using dk by (rule distinct_fold_update)
  have t1_keys: "fst ` set t1 \<subseteq> set (nodes g)"
    using sub by (simp add: t1_def keys_fold_update ns_def)
  have t2_dk: "distinct (map fst t2)" unfolding t2_def using t1_dk by (rule distinct_fold_distribute)
  have t2_keys: "fst ` set t2 \<subseteq> set (nodes g)"
    using keys_fold_distribute[OF wf, of "Num d" "fst st" ns t1] t1_keys by (auto simp: t2_def)
  have k': "map fst (object_assign (fst st) t2) = nodes g"
  proof -
    have "fst ` set t2 \<subseteq> fst ` set (fst st)"
      using t2_keys keys by (metis list.set_map)
    from map_fst_object_assign[OF this] keys show ?thesis by simp
  qed
  have at: "map_of (object_assign (fst st) t2) n = map_of t2 n" if n: "n \<in> set (nodes g)" for n
  proof -
    obtain r where "map_of t2 n = Some (Num r)" using t2_fin n by (auto simp: fin_on_def)
    then show ?thesis by (simp add: map_of_object_assign[OF t2_dk] map_add_def)
  qed
  have f': "fin_on (object_assign (fst st) t2) (nodes g)"
    using t2_fin at by (simp add: fin_on_def)
  have "sum_list (map (\<lambda>n. js_val (num_at (object_assign (fst st) t2) n)) (nodes g))
        = sum_list (map (\<lambda>n. js_val (num_at t2 n)) (nodes g))"
    using at by (intro arg_cong[where f=sum_list] map_cong) (auto simp: num_at_def)
  then have s': "tsum (object_assign (fst st) t2) (nodes g) = 1"
    using t2_one by (simp add: tsum_def)
  have "authorityIteration g (Num d) st = (object_assign (fst st) t2, t2)"
    by (simp add: authorityIteration_def Let_def t2_def t1_def ns_def)
  then show ?thesis
    using k' f' s' t2_dk t2_keys by (simp add: auth_inv_def)
qed

lemma authority_init_inv:
  assumes wf: "wf_graph g" and ne: "nodes g \<noteq> []"
  shows "auth_inv g (fold (\<lambda>node t. AList.update node (js_div (Num 1) (js_nat (length (nodes g)))) t) (nodes g) [], [])"
proof -
  define ns where "ns = nodes g"
  define t0 where "t0 = fold (\<lambda>node t. AList.update node (js_div (Num 1) (js_nat (length ns))) t) ns []"
  have dist: "distinct ns" using wf by (simp add: wf_graph_def ns_def)
  have N: "0 < length ns" using ne by (simp add: ns_def)
  have cval: "js_div (Num 1) (js_nat (length ns)) = Num (1 / of_nat (length ns))"
    using N by (simp add: js_nat_def js_div_Num)
  have t0_eq: "t0 = map (\<lambda>n. (n, Num (1 / of_nat (length ns)))) ns"
    unfolding t0_def using fold_update_table[OF dist, of "\<lambda>n. js_div (Num 1) (js_nat (length ns))"]
    by (simp add: cval)
  have t0_at: "map_of t0 n = Some (Num (1 / of_nat (length ns)))" if "n \<in> set ns" for n
    using that by (simp add: t0_def map_of_fold_update cval)
  have "tsum t0 ns = 1" using tsum_const[of ns t0, OF t0_at] N by simp
  moreover have "fin_on t0 ns" using t0_at by (auto simp: fin_on_def)
  moreover have "map fst t0 = ns" by (simp add: t0_eq comp_def)
  ultimately show ?thesis by (simp add: auth_inv_def t0_def ns_def)
qed

lemma funpow_inv: "(\<And>s. P s \<Longrightarrow> P (f s)) \<Longrightarrow> P s \<Longrightarrow> P ((f ^^ k) s)"
  by (induction k) simp_all

lemma authority_sum_wf:
  assumes wf: "wf_graph g" and ne: "nodes g \<noteq> []" and d: "0 \<le> d" "d \<le> 1"
    and nosink: "\<forall>n\<in>set (nodes g). 0 < outdegree g n"
  shows "map fst (calculateAuthorityScore g k (Num d)) = nodes g \<and>
         fin_on (calculateAuthorityScore g k (Num d)) (nodes g) \<and>
         js_sum (obj_values (calculateAuthorityScore g k (Num d))) = Num 1"
proof -
  define st where "st = (authorityIteration g (Num d) ^^ k)
     (fold (\<lambda>node t. AList.update node (js_div (Num 1) (js_nat (length (nodes g)))) t) (nodes g) [], [])"
  have "auth_inv g st"
    unfolding st_def
    by (rule funpow_inv[where P="auth_inv g"])
       (rule authorityIteration_inv[OF wf ne d nosink], assumption, rule authority_init_inv[OF wf ne])
  then have a: "map fst (fst st) = nodes g" "fin_on (fst st) (nodes g)" "tsum (fst st) (nodes g) = 1"
    by (auto simp: auth_inv_def)
  have "distinct (nodes g)" using wf by (simp add: wf_graph_def)
  from js_sum_table[OF a(1) this a(2)] a
  have "js_sum (obj_values (fst st)) = Num 1" by simp
  moreover have "calculateAuthorityScore g k (Num d) = fst st"
    by (simp add: calculateAuthorityScore_def Let_def st_def)
  ultimately show ?thesis using a(1,2) by simp
qed

section \<open>Evaluation on the examples, selectors\<close>

lemmas js_eval = js_div_def js_mul_def js_sub_def js_add_def js_fin_def js_signed_zero_def
  js_signed_inf_def js_nat_def js_gt_def

lemmas build_simps = buildNetwork_def emptyNetwork_def Graph_def addPaper_def addCitation_def
  addNode_def addEdge_def hasNode_def edgeKey_def mkPaper_def cite_def Let_def

lemma graph_triangle_net:
  "graph triangle_net = \<lparr>nodes = [''a'', ''b'', ''c''],
                          edges = [(''a'', ''b''), (''b'', ''c''), (''a'', ''c'')]\<rparr>"
  by (simp add: triangle_net_def abc_papers_def build_simps)

lemma graph_cycle_net:
  "graph cycle_net = \<lparr>nodes = [''a'', ''b'', ''c''],
                       edges = [(''a'', ''b''), (''b'', ''c''), (''c'', ''a'')]\<rparr>"
  by (simp add: cycle_net_def abc_papers_def build_simps)

lemma graph_single_net: "graph single_net = \<lparr>nodes = [''a''], edges = []\<rparr>"
  by (simp add: single_net_def build_simps)

lemma density_eq:
  "density (calculateBasicMetrics net)
   = js_div (js_nat (length (edges (graph net))))
       (js_mul (js_nat (length (nodes (graph net))))
               (js_sub (js_nat (length (nodes (graph net)))) (Num 1)))"
  by (simp add: calculateBasicMetrics_def Let_def)

lemma edgeCount_eq: "edgeCount (calculateBasicMetrics net) = length (edges (graph net))"
  by (simp add: calculateBasicMetrics_def Let_def)

lemma density_two_or_more:
  assumes "2 \<le> length (nodes (graph net))"
  shows "density (calculateBasicMetrics net)
         = Num (of_nat (length (edges (graph net)))
                / (of_nat (length (nodes (graph net))) * (of_nat (length (nodes (graph net))) - 1)))"
proof -
  define n where "n = length (nodes (graph net))"
  have n: "2 \<le> n" using assms by (simp add: n_def)
  then have "0 < (of_nat n * (of_nat n - 1) :: rat)" by simp
  then show ?thesis
    using n by (simp add: density_eq js_nat_def js_mul_Num js_div_Num n_def[symmetric])
qed

lemma exportData_nodes: "nd_nodes (exportData ts net) = map (exportNodeOf net) (nodes (graph net))"
  by (simp add: exportData_def Let_def)

lemma exportData_edges: "nd_edges (exportData ts net) = map (exportEdgeOf net) (edges (graph net))"
  by (simp add: exportData_def Let_def)




section \<open>The edges and the attribute table of a built network\<close>

lemma nodes_fold_addPaper:
  "set (nodes (graph (fold addPaper ps net))) = set (nodes (graph net)) \<union> paper_id ` set ps"
  by (induction ps arbitrary: net) (auto simp: addNode_def)

lemma edges_fold_addPaper: "edges (graph (fold addPaper ps net)) = edges (graph net)"
  by (induction ps arbitrary: net) (auto simp: addNode_def)

lemma citationEdges_fold_addPaper: "citationEdges (fold addPaper ps net) = citationEdges net"
  by (induction ps arbitrary: net) (auto simp: addPaper_def)

lemma addEdge_present:
  "u \<in> set (nodes g) \<Longrightarrow> v \<in> set (nodes g) \<Longrightarrow> addEdge u v g = g\<lparr>edges := edges g @ [(u, v)]\<rparr>"
  by (simp add: addEdge_def addNode_def)

lemma addCitation_graph:
  "graph (addCitation c net)
   = (if citingPaper c \<in> set (nodes (graph net)) \<and> citedPaper c \<in> set (nodes (graph net))
      then (graph net)\<lparr>edges := edges (graph net) @ [(citingPaper c, citedPaper c)]\<rparr>
      else graph net)"
  by (simp add: addCitation_def Let_def hasNode_def addEdge_present)

lemma addCitation_table:
  "citationEdges (addCitation c net)
   = (if citingPaper c \<in> set (nodes (graph net)) \<and> citedPaper c \<in> set (nodes (graph net))
      then AList.update (citationKey c)
             \<lparr>ce_source = citingPaper c, ce_target = citedPaper c,
              ce_citationType = c_citationType c, ce_sentiment = c_sentiment c,
              ce_strength = c_strength c, ce_context = c_context c\<rparr> (citationEdges net)
      else citationEdges net)"
  by (simp add: addCitation_def Let_def hasNode_def citationKey_def)

lemma fold_addCitation:
  "nodes (graph (fold addCitation cs net)) = nodes (graph net) \<and>
   edges (graph (fold addCitation cs net))
     = edges (graph net) @ map (\<lambda>c. (citingPaper c, citedPaper c))
         (filter (\<lambda>c. citingPaper c \<in> set (nodes (graph net)) \<and> citedPaper c \<in> set (nodes (graph net))) cs) \<and>
   fst ` set (citationEdges (fold addCitation cs net))
     = fst ` set (citationEdges net) \<union> citationKey `
         set (filter (\<lambda>c. citingPaper c \<in> set (nodes (graph net)) \<and> citedPaper c \<in> set (nodes (graph net))) cs) \<and>
   (distinct (map fst (citationEdges net)) \<longrightarrow> distinct (map fst (citationEdges (fold addCitation cs net))))"
proof (induction cs arbitrary: net)
  case Nil
  then show ?case by simp
next
  case (Cons c cs)
  have n: "nodes (graph (addCitation c net)) = nodes (graph net)"
    by (simp add: addCitation_graph)
  show ?case
    using Cons[of "addCitation c net"]
    by (auto simp: n addCitation_graph addCitation_table dom_update distinct_update)
qed

lemma dup_build:
  "buildNetwork dup_papers dup_citations
   = \<lparr>graph = \<lparr>nodes = [''a'', ''b''], edges = [(''a'', ''b''), (''a'', ''b'')]\<rparr>,
      paperNodes = [(''a'', mkPaper ''a'' [''ml''] [''k''] [''Ann'']),
                    (''b'', mkPaper ''b'' [''ml''] [''k''] [''Bob''])],
      citationEdges = [(''a-b'', \<lparr>ce_source = ''a'', ce_target = ''b'', ce_citationType = ''direct'',
                                  ce_sentiment = ''neutral'', ce_strength = 1,
                                  ce_context = ''again''\<rparr>)]\<rparr>"
  by (simp add: dup_papers_def dup_citations_def buildNetwork_def emptyNetwork_def Graph_def
      addPaper_def addCitation_def addNode_def addEdge_def hasNode_def edgeKey_def cite_def Let_def
      mkPaper_def)

section \<open>The similarity in closed form, one scan of the neighbours\<close>












section \<open>Community detection: invariants and totality\<close>

lemma scanNeighbors_inv:
  "scanNeighbors net current nbs (community, queue, visited) = Inr (community', queue', visited') \<Longrightarrow>
   set nbs \<subseteq> N \<Longrightarrow> distinct community \<Longrightarrow> set community \<subseteq> visited \<Longrightarrow>
   set community \<subseteq> N \<Longrightarrow> set queue \<subseteq> N \<Longrightarrow>
   distinct community' \<and> set community' \<subseteq> visited' \<and> set community' \<subseteq> N \<and> set queue' \<subseteq> N"
proof (induction net current nbs "(community, queue, visited)"
    arbitrary: community queue visited rule: scanNeighbors.induct)
  case (1 net current)
  then show ?case by simp
next
  case (2 net current neighbor rest community queue visited)
  have rest: "set rest \<subseteq> N" and nb: "neighbor \<in> N" using "2.prems"(2) by auto
  show ?case
  proof (cases "neighbor \<in> visited")
    case True
    then have "scanNeighbors net current rest (community, queue, visited)
               = Inr (community', queue', visited')"
      using "2.prems"(1) by simp
    with "2.hyps"(1) True rest "2.prems"(3,4,5,6) show ?thesis by blast
  next
    case False
    obtain p1 p2 where p: "map_of (paperNodes net) current = Some p1"
        "map_of (paperNodes net) neighbor = Some p2"
      using "2.prems"(1) False by (auto split: option.splits)
    show ?thesis
    proof (cases "js_gt (calculatePaperSimilarity p1 p2) (Num (3 / 10))")
      case True
      have s: "scanNeighbors net current rest
              (set_add neighbor community, queue @ [neighbor], insert neighbor visited)
            = Inr (community', queue', visited')"
        using "2.prems"(1) False p True by simp
      have nc: "neighbor \<notin> set community" using False "2.prems"(4) by auto
      have a: "distinct (set_add neighbor community)"
        and b: "set (set_add neighbor community) \<subseteq> insert neighbor visited"
        and c: "set (set_add neighbor community) \<subseteq> N"
        and d: "set (queue @ [neighbor]) \<subseteq> N"
        using nc nb "2.prems"(3,4,5,6) by (auto simp: set_add_def)
      from "2.hyps"(2) False p True s rest a b c d show ?thesis by blast
    next
      case F: False
      have "scanNeighbors net current rest (community, queue, visited)
            = Inr (community', queue', visited')"
        using "2.prems"(1) False p F by simp
      with "2.hyps"(3) False p F rest "2.prems"(3,4,5,6) show ?thesis by blast
    qed
  qed
qed

lemma scanNeighbors_total:
  "map_of (paperNodes net) current \<noteq> None \<Longrightarrow>
   \<forall>nb\<in>set nbs. map_of (paperNodes net) nb \<noteq> None \<Longrightarrow>
   \<exists>st'. scanNeighbors net current nbs st = Inr st'"
proof (induction net current nbs st rule: scanNeighbors.induct)
  case (1 net current st)
  show ?case by (intro exI[of _ st]) simp
next
  case (2 net current neighbor rest community queue visited)
  then show ?case by (auto split: option.splits)
qed

lemma has_papers_entry:
  "has_papers net \<Longrightarrow> n \<in> set (nodes (graph net)) \<Longrightarrow> map_of (paperNodes net) n \<noteq> None"
  by (auto simp: has_papers_def map_of_eq_None_iff)

lemma expandCommunity_inv:
  "expandCommunity net (community, queue, visited) = Inr (community', visited') \<Longrightarrow>
   wf_graph (graph net) \<Longrightarrow>
   distinct community \<Longrightarrow> set community \<subseteq> visited \<Longrightarrow>
   set community \<subseteq> set (nodes (graph net)) \<Longrightarrow> set queue \<subseteq> set (nodes (graph net)) \<Longrightarrow>
   distinct community' \<and> set community' \<subseteq> set (nodes (graph net))"
proof (induction net "(community, queue, visited)" arbitrary: community queue visited
    rule: expandCommunity.induct)
  case (1 net community visited)
  then show ?case by simp
next
  case (2 net community current queue visited)
  obtain c1 q1 v1 where s: "scanNeighbors net current (adjacent (graph net) current)
      (community, queue, visited) = Inr (c1, q1, v1)"
    using "2.prems"(1) by (auto split: sum.splits)
  then have e: "expandCommunity net (c1, q1, v1) = Inr (community', visited')"
    using "2.prems"(1) by simp
  have q: "set queue \<subseteq> set (nodes (graph net))" using "2.prems"(6) by simp
  from scanNeighbors_inv[OF s adjacent_subset[OF "2.prems"(2)] "2.prems"(3,4,5) q]
  have "distinct c1" "set c1 \<subseteq> v1" "set c1 \<subseteq> set (nodes (graph net))"
    "set q1 \<subseteq> set (nodes (graph net))" by auto
  with "2.hyps" s e "2.prems"(2) show ?case by blast
qed

lemma expandCommunity_total:
  "has_papers net \<Longrightarrow> distinct community \<Longrightarrow> set community \<subseteq> visited \<Longrightarrow>
   set community \<subseteq> set (nodes (graph net)) \<Longrightarrow> set queue \<subseteq> set (nodes (graph net)) \<Longrightarrow>
   \<exists>r. expandCommunity net (community, queue, visited) = Inr r"
proof (induction net "(community, queue, visited)" arbitrary: community queue visited
    rule: expandCommunity.induct)
  case (1 net community visited)
  then show ?case by simp
next
  case (2 net community current queue visited)
  have wf: "wf_graph (graph net)" using "2.prems"(1) by (simp add: has_papers_def)
  have cur: "map_of (paperNodes net) current \<noteq> None"
    using "2.prems"(1,5) by (intro has_papers_entry) auto
  have nbs: "\<forall>nb\<in>set (adjacent (graph net) current). map_of (paperNodes net) nb \<noteq> None"
    using adjacent_subset[OF wf, of current] has_papers_entry[OF "2.prems"(1)] by blast
  obtain c1 q1 v1 where s: "scanNeighbors net current (adjacent (graph net) current)
      (community, queue, visited) = Inr (c1, q1, v1)"
    using scanNeighbors_total[OF cur nbs, of "(community, queue, visited)"] by (metis prod_cases3)
  have q: "set queue \<subseteq> set (nodes (graph net))" using "2.prems"(5) by simp
  from scanNeighbors_inv[OF s adjacent_subset[OF wf] "2.prems"(2,3,4) q]
  have "distinct c1" "set c1 \<subseteq> v1" "set c1 \<subseteq> set (nodes (graph net))"
    "set q1 \<subseteq> set (nodes (graph net))" by auto
  with "2.hyps" s "2.prems"(1) have "\<exists>r. expandCommunity net (c1, q1, v1) = Inr r" by blast
  then show ?case using s by simp
qed

lemma detectLoop_inv:
  "detectLoop net ns (cs, i, v) = Inr (cs', i', v') \<Longrightarrow> wf_graph (graph net) \<Longrightarrow>
   set ns \<subseteq> set (nodes (graph net)) \<Longrightarrow> list_all (\<lambda>c. community_ok net (snd c)) cs \<Longrightarrow>
   list_all (\<lambda>c. community_ok net (snd c)) cs'"
proof (induction net ns "(cs, i, v)" arbitrary: cs i v rule: detectLoop.induct)
  case (1 net)
  then show ?case by simp
next
  case (2 net node rest cs i v)
  have rest: "set rest \<subseteq> set (nodes (graph net))" and node: "node \<in> set (nodes (graph net))"
    using "2.prems"(3) by auto
  show ?case
  proof (cases "node \<in> v")
    case True
    then have "detectLoop net rest (cs, i, v) = Inr (cs', i', v')" using "2.prems"(1) by simp
    with "2.hyps"(1) True "2.prems"(2,4) rest show ?thesis by blast
  next
    case False
    obtain community v1 where e: "expandCommunity net ([node], [node], insert node v) = Inr (community, v1)"
      using "2.prems"(1) False by (auto split: sum.splits)
    have ok: "distinct community \<and> set community \<subseteq> set (nodes (graph net))"
      using expandCommunity_inv[OF e "2.prems"(2)] node by simp
    show ?thesis
    proof (cases "3 \<le> length community")
      case True
      have d: "detectLoop net rest (cs @ [(i, community)], i + 1, v1) = Inr (cs', i', v')"
        using "2.prems"(1) False e True by simp
      have "list_all (\<lambda>c. community_ok net (snd c)) (cs @ [(i, community)])"
        using "2.prems"(4) ok True by (simp add: community_ok_def)
      with "2.hyps"(2) False e True d "2.prems"(2) rest show ?thesis by blast
    next
      case F: False
      have d: "detectLoop net rest (cs, i, v1) = Inr (cs', i', v')"
        using "2.prems"(1) False e F by simp
      with "2.hyps"(3) False e F "2.prems"(2,4) rest show ?thesis by blast
    qed
  qed
qed

lemma detectLoop_total:
  "has_papers net \<Longrightarrow> set ns \<subseteq> set (nodes (graph net)) \<Longrightarrow> \<exists>r. detectLoop net ns st = Inr r"
proof (induction net ns st rule: detectLoop.induct)
  case (1 net st)
  show ?case by (intro exI[of _ st]) simp
next
  case (2 net node rest cs i v)
  have rest: "set rest \<subseteq> set (nodes (graph net))" and node: "node \<in> set (nodes (graph net))"
    using "2.prems"(2) by auto
  show ?case
  proof (cases "node \<in> v")
    case True
    with "2.IH"(1) "2.prems"(1) rest show ?thesis by simp
  next
    case False
    obtain community v1 where e: "expandCommunity net ([node], [node], insert node v) = Inr (community, v1)"
      using expandCommunity_total[OF "2.prems"(1), of "[node]" "insert node v" "[node]"] node
      by auto
    show ?thesis
    proof (cases "3 \<le> length community")
      case True
      with "2.IH"(2) False e "2.prems"(1) rest
      have "\<exists>r. detectLoop net rest (cs @ [(i, community)], i + 1, v1) = Inr r" by blast
      then show ?thesis using False e True by simp
    next
      case F: False
      with "2.IH"(3) False e "2.prems"(1) rest
      have "\<exists>r. detectLoop net rest (cs, i, v1) = Inr r" by blast
      then show ?thesis using False e F by simp
    qed
  qed
qed

lemma memberPapersOf_total:
  "\<forall>n\<in>set ns. map_of (paperNodes net) n \<noteq> None \<Longrightarrow> \<exists>ps. memberPapersOf net ns = Some ps"
  by (induction ns) auto

lemma analyseCommunity_ok:
  assumes "has_papers net" "set (snd c) \<subseteq> set (nodes (graph net))"
  shows "\<exists>a. analyseCommunity net c = Inr a \<and> cm_id a = fst c \<and> cm_size a = length (snd c)
             \<and> cm_members a = snd c"
proof -
  have "\<forall>n\<in>set (snd c). map_of (paperNodes net) n \<noteq> None"
    using assms has_papers_entry[OF assms(1)] by blast
  then obtain ps where "memberPapersOf net (snd c) = Some ps"
    using memberPapersOf_total by blast
  then show ?thesis by (simp add: analyseCommunity_def)
qed

lemma analyseAll_ok:
  "has_papers net \<Longrightarrow> list_all (\<lambda>c. set (snd c) \<subseteq> set (nodes (graph net))) cs \<Longrightarrow>
   \<exists>as. analyseAll net cs = Inr as \<and>
        list_all2 (\<lambda>a c. cm_id a = fst c \<and> cm_size a = length (snd c) \<and> cm_members a = snd c) as cs"
proof (induction cs)
  case Nil
  then show ?case by simp
next
  case (Cons c cs)
  obtain a where a: "analyseCommunity net c = Inr a" "cm_id a = fst c"
      "cm_size a = length (snd c)" "cm_members a = snd c"
    using analyseCommunity_ok[OF Cons.prems(1), of c] Cons.prems(2) by auto
  obtain as where as: "analyseAll net cs = Inr as"
      "list_all2 (\<lambda>a c. cm_id a = fst c \<and> cm_size a = length (snd c) \<and> cm_members a = snd c) as cs"
    using Cons by auto
  show ?case using a as by simp
qed

lemma has_papers_buildNetwork: "has_papers (buildNetwork papers citations)"
proof -
  define net0 where "net0 = fold addPaper papers emptyNetwork"
  have keys: "fst ` set (paperNodes (fold addPaper ps net)) = fst ` set (paperNodes net) \<union> paper_id ` set ps"
    for ps net
    by (induction ps arbitrary: net) (auto simp: addPaper_def dom_update)
  have pn: "paperNodes (fold addCitation cs net) = paperNodes net" for cs net
    by (induction cs arbitrary: net) (auto simp: addCitation_def Let_def)
  have "set (nodes (graph (buildNetwork papers citations))) = paper_id ` set papers"
    using fold_addCitation[of citations net0]
    by (simp add: buildNetwork_def net0_def nodes_fold_addPaper emptyNetwork_def Graph_def)
  moreover have "fst ` set (paperNodes (buildNetwork papers citations)) = paper_id ` set papers"
    by (simp add: buildNetwork_def pn keys emptyNetwork_def)
  ultimately show ?thesis by (simp add: has_papers_def wf_buildNetwork)
qed

lemma detectCommunities_has_papers:
  assumes "has_papers net"
  shows "\<exists>r. detectCommunities net = Inr r \<and>
             list_all (\<lambda>c. community_ok net (cm_members c) \<and> cm_size c = length (cm_members c))
               (cr_communities r)"
proof -
  have wf: "wf_graph (graph net)" using assms by (simp add: has_papers_def)
  obtain cs i v where d: "detectLoop net (nodes (graph net)) ([], 0, {}) = Inr (cs, i, v)"
    using detectLoop_total[OF assms subset_refl, of "([], 0, {})"] by (metis prod_cases3)
  from detectLoop_inv[OF d wf subset_refl]
  have ok: "list_all (\<lambda>c. community_ok net (snd c)) cs" by simp
  then have "list_all (\<lambda>c. set (snd c) \<subseteq> set (nodes (graph net))) cs"
    by (auto simp: list_all_iff community_ok_def)
  from analyseAll_ok[OF assms this]
  obtain as where a: "analyseAll net cs = Inr as"
    and rel: "list_all2 (\<lambda>a c. cm_id a = fst c \<and> cm_size a = length (snd c) \<and> cm_members a = snd c) as cs"
    by blast
  have r: "detectCommunities net
           = Inr \<lparr>cr_count = length cs,
                  cr_communities = sort_key (\<lambda>a. - int (cm_size a)) as\<rparr>"
    by (simp add: detectCommunities_def d a)
  have each: "community_ok net (cm_members x) \<and> cm_size x = length (cm_members x)"
    if x: "x \<in> set as" for x
  proof -
    obtain i where i: "i < length as" "x = as ! i"
      using x by (auto simp: in_set_conv_nth)
    have len: "length as = length cs" using rel by (rule list_all2_lengthD)
    have p: "cm_size x = length (snd (cs ! i))" "cm_members x = snd (cs ! i)"
      using list_all2_nthD[OF rel i(1)] i(2) by simp_all
    have "cs ! i \<in> set cs" using i(1) len by simp
    then have "community_ok net (snd (cs ! i))" using ok by (simp add: list_all_iff)
    then show ?thesis using p by simp
  qed
  then have "list_all (\<lambda>c. community_ok net (cm_members c) \<and> cm_size c = length (cm_members c))
          (sort_key (\<lambda>a. - int (cm_size a)) as)"
    by (simp add: list_all_iff)
  then show ?thesis using r by simp
qed

lemma mkPaper_sel [simp]:
  "paper_id (mkPaper i cats kws auths) = i"
  "categories (mkPaper i cats kws auths) = cats"
  "paper_keywords (mkPaper i cats kws auths) = kws"
  "map name (authors (mkPaper i cats kws auths)) = auths"
  by (simp_all add: mkPaper_def comp_def)

lemma triangle_net_eq:
  "triangle_net
   = \<lparr>graph = \<lparr>nodes = [''a'', ''b'', ''c''],
                edges = [(''a'', ''b''), (''b'', ''c''), (''a'', ''c'')]\<rparr>,
      paperNodes = [(''a'', mkPaper ''a'' [''ml''] [''k''] [''Ann'']),
                    (''b'', mkPaper ''b'' [''ml''] [''k''] [''Ann'']),
                    (''c'', mkPaper ''c'' [''ml''] [''k''] [''Ann''])],
      citationEdges = [(''a-b'', \<lparr>ce_source = ''a'', ce_target = ''b'', ce_citationType = ''direct'',
                                  ce_sentiment = ''neutral'', ce_strength = 1, ce_context = ''''\<rparr>),
                       (''b-c'', \<lparr>ce_source = ''b'', ce_target = ''c'', ce_citationType = ''direct'',
                                  ce_sentiment = ''neutral'', ce_strength = 1, ce_context = ''''\<rparr>),
                       (''a-c'', \<lparr>ce_source = ''a'', ce_target = ''c'', ce_citationType = ''direct'',
                                  ce_sentiment = ''neutral'', ce_strength = 1, ce_context = ''''\<rparr>)]\<rparr>"
  by (simp add: triangle_net_def abc_papers_def buildNetwork_def emptyNetwork_def Graph_def
      addPaper_def addCitation_def addNode_def addEdge_def hasNode_def edgeKey_def cite_def Let_def)

lemma same_similarity:
  "calculatePaperSimilarity (mkPaper i [''ml''] [''k''] [''Ann'']) (mkPaper j [''ml''] [''k''] [''Ann''])
   = Num 1"
  by (simp add: calculatePaperSimilarity_def overlapRatio_def overlap_size_def
      set_size_def Let_def js_eval)

lemma detectLoop_triangle:
  "\<exists>visited. detectLoop triangle_net (nodes (graph triangle_net)) ([], 0, {})
             = Inr ([(0, [''a'', ''b'', ''c''])], 1, visited)"
  by (simp add: triangle_net_eq adjacent_def same_similarity js_gt_def set_add_def)

lemma memberPapersOf_triangle:
  "memberPapersOf triangle_net [''a'', ''b'', ''c''] = Some abc_papers"
  by (simp add: triangle_net_eq abc_papers_def)

lemma detectCommunities_triangle:
  "detectCommunities triangle_net
   = Inr \<lparr>cr_count = 1,
          cr_communities = [\<lparr>cm_id = 0, cm_size = 3, cm_members = [''a'', ''b'', ''c'']\<rparr>]\<rparr>"
proof -
  obtain visited where
    "detectLoop triangle_net (nodes (graph triangle_net)) ([], 0, {})
     = Inr ([(0, [''a'', ''b'', ''c''])], 1, visited)"
    using detectLoop_triangle by blast
  then show ?thesis
    by (simp add: detectCommunities_def analyseCommunity_def memberPapersOf_triangle
        del: memberPapersOf.simps)
qed

section \<open>Authority and betweenness scores are finite\<close>














section \<open>The records of a built network, the candidates of the seminal selection\<close>

lemma update_entries:
  "kv \<in> set (AList.update k v al) \<Longrightarrow> kv = (k, v) \<or> kv \<in> set al"
  by (induction al) (auto split: if_splits)

lemma records_ok_addPaper: "records_ok net \<Longrightarrow> records_ok (addPaper p net)"
proof -
  assume a: "records_ok net"
  then have keys: "map fst (paperNodes net) = nodes (graph net)"
    and ids: "list_all (\<lambda>kv. paper_id (snd kv) = fst kv) (paperNodes net)"
    by (auto simp: records_ok_def)
  have ids': "list_all (\<lambda>kv. paper_id (snd kv) = fst kv) (AList.update (paper_id p) p (paperNodes net))"
    using ids update_entries[of _ "paper_id p" p "paperNodes net"] by (fastforce simp: list_all_iff)
  show ?thesis
  proof (cases "paper_id p \<in> set (nodes (graph net))")
    case True
    then have "paper_id p \<in> fst ` set (paperNodes net)" using keys by (metis list.set_map)
    then have "map fst (AList.update (paper_id p) p (paperNodes net)) = nodes (graph net)"
      using keys by (simp add: map_fst_update_present)
    then show ?thesis using True ids' by (simp add: records_ok_def addPaper_def addNode_def)
  next
    case False
    then have "paper_id p \<notin> fst ` set (paperNodes net)" using keys by (metis list.set_map)
    then have "AList.update (paper_id p) p (paperNodes net) = paperNodes net @ [(paper_id p, p)]"
      by (rule update_fresh)
    then show ?thesis using False keys ids by (simp add: records_ok_def addPaper_def addNode_def)
  qed
qed

lemma records_ok_fold_addPaper: "records_ok net \<Longrightarrow> records_ok (fold addPaper ps net)"
  by (induction ps arbitrary: net) (simp_all add: records_ok_addPaper)

lemma paperNodes_fold_addCitation: "paperNodes (fold addCitation cs net) = paperNodes net"
  by (induction cs arbitrary: net) (auto simp: addCitation_def Let_def)

lemma records_ok_buildNetwork: "records_ok (buildNetwork ps cs)"
proof -
  have "records_ok (fold addPaper ps emptyNetwork)"
    by (intro records_ok_fold_addPaper) (simp add: records_ok_def emptyNetwork_def Graph_def)
  then show ?thesis
    using fold_addCitation[of cs "fold addPaper ps emptyNetwork"]
    by (simp add: records_ok_def buildNetwork_def paperNodes_fold_addCitation)
qed










section \<open>The exported documents\<close>

lemma fold_append_concat: "fold (\<lambda>x acc. acc @ f x) xs acc = acc @ concat (map f xs)"
  by (induction xs arbitrary: acc) simp_all

lemma gexfNodes_all:
  "list_all (\<lambda>node. en_paper node \<noteq> None) ns \<Longrightarrow>
   gexfNodes toStr ns acc
   = Inr (acc @ concat (map (\<lambda>node. gexfNodeText toStr (en_id node) (the (en_paper node))) ns))"
proof (induction ns arbitrary: acc)
  case Nil
  then show ?case by simp
next
  case (Cons node ns)
  obtain p where p: "en_paper node = Some p" using Cons.prems by auto
  have rest: "list_all (\<lambda>node. en_paper node \<noteq> None) ns" using Cons.prems by simp
  have "gexfNodes toStr (node # ns) acc
        = gexfNodes toStr ns (acc @ gexfNodeText toStr (en_id node) p)"
    by (simp add: gexfNode_def p)
  also have "\<dots> = Inr ((acc @ gexfNodeText toStr (en_id node) p)
                       @ concat (map (\<lambda>node. gexfNodeText toStr (en_id node) (the (en_paper node))) ns))"
    by (rule Cons.IH[OF rest])
  finally have e: "gexfNodes toStr (node # ns) acc
      = Inr ((acc @ gexfNodeText toStr (en_id node) p)
             @ concat (map (\<lambda>node. gexfNodeText toStr (en_id node) (the (en_paper node))) ns))" .
  show ?case unfolding e by (simp add: p)
qed

lemma enumerate_nth: "enumerate 0 xs = map (\<lambda>i. (i, xs ! i)) [0..<length xs]"
  by (rule nth_equalityI) (simp_all add: nth_enumerate_eq)

lemma exportNodes_built:
  assumes "records_ok net" "wf_graph (graph net)"
  shows "nd_nodes (exportData ts net)
         = map (\<lambda>kv. \<lparr>en_id = fst kv, en_paper = Some (snd kv)\<rparr>) (paperNodes net)"
proof -
  have keys: "map fst (paperNodes net) = nodes (graph net)"
    and ids: "list_all (\<lambda>kv. paper_id (snd kv) = fst kv) (paperNodes net)"
    using assms(1) by (auto simp: records_ok_def)
  have d: "distinct (map fst (paperNodes net))" using assms(2) keys by (simp add: wf_graph_def)
  have "exportNodeOf net (fst kv) = \<lparr>en_id = fst kv, en_paper = Some (snd kv)\<rparr>"
    if kv: "kv \<in> set (paperNodes net)" for kv
  proof -
    have "map_of (paperNodes net) (fst kv) = Some (snd kv)"
      using map_of_is_SomeI[OF d, of "fst kv" "snd kv"] kv by simp
    moreover have "paper_id (snd kv) = fst kv" using ids kv by (auto simp: list_all_iff)
    ultimately show ?thesis by (simp add: exportNodeOf_def)
  qed
  then have "map (\<lambda>kv. exportNodeOf net (fst kv)) (paperNodes net)
             = map (\<lambda>kv. \<lparr>en_id = fst kv, en_paper = Some (snd kv)\<rparr>) (paperNodes net)"
    by (intro map_cong) simp_all
  moreover have "map (exportNodeOf net) (nodes (graph net))
                 = map (\<lambda>kv. exportNodeOf net (fst kv)) (paperNodes net)"
    by (simp add: keys[symmetric] comp_def)
  ultimately show ?thesis by (simp add: exportData_nodes)
qed

lemma replaceQuotes_no_quote: "dq \<notin> set (replaceQuotes s)"
  by (induction s) (auto simp: replaceQuotes_def dq_def)

lemma xml_net_eq:
  "xml_net = \<lparr>graph = \<lparr>nodes = [''p1''], edges = []\<rparr>,
              paperNodes = [(''p1'', xml_paper)], citationEdges = []\<rparr>"
  by (simp add: xml_net_def xml_paper_def buildNetwork_def emptyNetwork_def Graph_def addPaper_def
      addNode_def)

lemma xml_paper_fields:
  "title xml_paper = ''A&B<C'' \<and> citationCount xml_paper = 60 \<and> impactScore xml_paper = 5
   \<and> paper_id xml_paper = ''p1''"
  by (simp add: xml_paper_def mkPaper_def)

lemma renderNumber_values:
  "renderNumber 60 = ''60'' \<and> renderNumber 5 = ''5'' \<and> renderNumber 0 = ''0''
   \<and> renderNumber 1 = ''1''"
  by (simp add: renderNumber_def natToString.simps)

section \<open>Claims\<close>

text \<open>
  C1 (amended). For every zero-node network, \<open>calculateNetworkMetrics\<close> (which would
  compute components and communities) fails with NotBuilt; \<open>exportNetworkData\<close> has no
  such guard and does not fail: for \<open>json\<close> it returns the network data with an empty
  node list and node count 0, and for \<open>gexf\<close> and \<open>graphml\<close> it returns the document
  made of the header, no node element, one element per edge of the graph, and the footer.
\<close>

theorem zero_node_metrics_fail_export_succeeds:
  assumes "nodes (graph net) = []"
  shows "calculateNetworkMetrics net = Inl NotBuilt \<and>
         exportNetworkData toStr generatedAt net ''json''
           = Inr (Json \<lparr>nd_nodes = [], nd_edges = map (exportEdgeOf net) (edges (graph net)),
                        nd_nodeCount = 0, nd_edgeCount = length (edges (graph net)),
                        nd_generatedAt = generatedAt\<rparr>) \<and>
         exportNetworkData toStr generatedAt net ''gexf''
           = Inr (Xml (gexfHeader @ ''</nodes>\<newline>'' @ ''<edges>\<newline>''
                       @ concat (map (\<lambda>i. gexfEdge toStr (i, exportEdgeOf net (edges (graph net) ! i)))
                                   [0..<length (edges (graph net))])
                       @ gexfFooter)) \<and>
         exportNetworkData toStr generatedAt net ''graphml''
           = Inr (Xml (graphmlHeader
                       @ concat (map (\<lambda>i. graphmlEdge toStr (i, exportEdgeOf net (edges (graph net) ! i)))
                                   [0..<length (edges (graph net))])
                       @ graphmlFooter))"
proof -
  have n: "nd_nodes (exportData generatedAt net) = []"
    using assms by (simp add: exportData_nodes)
  have es: "enumerate 0 (nd_edges (exportData generatedAt net))
            = map (\<lambda>i. (i, exportEdgeOf net (edges (graph net) ! i))) [0..<length (edges (graph net))]"
    by (simp add: enumerate_nth exportData_edges)
  have m: "calculateNetworkMetrics net = Inl NotBuilt"
    using assms by (simp add: calculateNetworkMetrics_def)
  have j: "exportData generatedAt net
           = \<lparr>nd_nodes = [], nd_edges = map (exportEdgeOf net) (edges (graph net)),
              nd_nodeCount = 0, nd_edgeCount = length (edges (graph net)),
              nd_generatedAt = generatedAt\<rparr>"
    using assms by (simp add: exportData_def Let_def)
  have gexf: "convertToGEXF toStr (exportData generatedAt net)
           = Inr (gexfHeader @ ''</nodes>\<newline>'' @ ''<edges>\<newline>''
                  @ concat (map (\<lambda>i. gexfEdge toStr (i, exportEdgeOf net (edges (graph net) ! i)))
                              [0..<length (edges (graph net))])
                  @ gexfFooter)"
    by (simp add: convertToGEXF_def n Let_def es fold_append_concat comp_def)
  have gml: "convertToGraphML toStr (exportData generatedAt net)
           = graphmlHeader
             @ concat (map (\<lambda>i. graphmlEdge toStr (i, exportEdgeOf net (edges (graph net) ! i)))
                         [0..<length (edges (graph net))])
             @ graphmlFooter"
    by (simp add: convertToGraphML_def n Let_def es fold_append_concat comp_def)
  have json: "exportNetworkData toStr generatedAt net ''json'' = Inr (Json (exportData generatedAt net))"
    by (simp add: exportNetworkData_def Let_def)
  have g1: "exportNetworkData toStr generatedAt net ''gexf''
            = Inr (Xml (gexfHeader @ ''</nodes>\<newline>'' @ ''<edges>\<newline>''
                  @ concat (map (\<lambda>i. gexfEdge toStr (i, exportEdgeOf net (edges (graph net) ! i)))
                              [0..<length (edges (graph net))])
                  @ gexfFooter))"
    by (simp add: exportNetworkData_def Let_def gexf)
  have g2: "exportNetworkData toStr generatedAt net ''graphml''
            = Inr (Xml (graphmlHeader
             @ concat (map (\<lambda>i. graphmlEdge toStr (i, exportEdgeOf net (edges (graph net) ! i)))
                         [0..<length (edges (graph net))])
             @ graphmlFooter))"
    by (simp add: exportNetworkData_def Let_def gml)
  show ?thesis using m json j g1 g2 by simp
qed

text \<open>The theorem at the empty network, which has no edge either.\<close>

theorem zero_node_metrics_fail_export_succeeds_witness:
  "calculateNetworkMetrics emptyNetwork = Inl NotBuilt \<and>
   exportNetworkData renderNumber ''2024'' emptyNetwork ''gexf''
     = Inr (Xml (gexfHeader @ ''</nodes>\<newline>'' @ ''<edges>\<newline>'' @ gexfFooter)) \<and>
   exportNetworkData renderNumber ''2024'' emptyNetwork ''graphml''
     = Inr (Xml (graphmlHeader @ graphmlFooter))"
  using zero_node_metrics_fail_export_succeeds[of emptyNetwork renderNumber "''2024''"]
  by (simp add: emptyNetwork_def Graph_def)

text \<open>
  C1 as stated fails: on the empty network the export returns the (empty) data and no
  NotBuilt error.
\<close>

theorem export_of_empty_graph_returns:
  "exportNetworkData renderNumber ''2024'' emptyNetwork ''json''
     = Inr (Json \<lparr>nd_nodes = [], nd_edges = [], nd_nodeCount = 0, nd_edgeCount = 0,
                  nd_generatedAt = ''2024''\<rparr>) \<and>
   exportNetworkData renderNumber ''2024'' emptyNetwork ''gexf'' \<noteq> Inl NotBuilt \<and>
   exportNetworkData renderNumber ''2024'' emptyNetwork ''graphml'' \<noteq> Inl NotBuilt"
  by (simp add: exportNetworkData_def exportData_def emptyNetwork_def Graph_def Let_def
      convertToGEXF_def)

text \<open>
  C3. For every built network, the in-degrees listed by the centrality metrics sum to the
  edge count reported by the basic metrics, and so do the out-degrees; the same holds for
  the degree lists that \<open>calculateBasicMetrics\<close> itself sums.
\<close>

theorem degree_sums_equal_edge_count:
  "reduce_sum (obj_values (inDegree (calculateCentralityMetrics (buildNetwork papers citations))))
     = edgeCount (calculateBasicMetrics (buildNetwork papers citations)) \<and>
   reduce_sum (obj_values (outDegree (calculateCentralityMetrics (buildNetwork papers citations))))
     = edgeCount (calculateBasicMetrics (buildNetwork papers citations)) \<and>
   reduce_sum (map (indegree (graph (buildNetwork papers citations)))
                 (nodes (graph (buildNetwork papers citations))))
     = edgeCount (calculateBasicMetrics (buildNetwork papers citations)) \<and>
   reduce_sum (map (outdegree (graph (buildNetwork papers citations)))
                 (nodes (graph (buildNetwork papers citations))))
     = edgeCount (calculateBasicMetrics (buildNetwork papers citations))"
proof -
  define net where "net = buildNetwork papers citations"
  have wf: "wf_graph (graph net)" unfolding net_def by (rule wf_buildNetwork)
  then have d: "distinct (nodes (graph net))" by (simp add: wf_graph_def)
  have i: "obj_values (degreeTable (indegree (graph net)) (nodes (graph net)))
           = map (indegree (graph net)) (nodes (graph net))"
    by (simp add: obj_values_def degreeTable_def fold_update_table[OF d] comp_def)
  have o: "obj_values (degreeTable (outdegree (graph net)) (nodes (graph net)))
           = map (outdegree (graph net)) (nodes (graph net))"
    by (simp add: obj_values_def degreeTable_def fold_update_table[OF d] comp_def)
  have e: "edgeCount (calculateBasicMetrics net) = length (edges (graph net))"
    by (rule edgeCount_eq)
  show ?thesis
    unfolding net_def[symmetric]
    by (simp add: calculateCentralityMetrics_def Let_def i o e reduce_sum_eq
        sum_indegree[OF wf] sum_outdegree[OF wf])
qed

text \<open>The theorem on the scenario with three edges.\<close>

theorem degree_sums_equal_edge_count_witness:
  "reduce_sum (obj_values (inDegree (calculateCentralityMetrics triangle_net))) = 3 \<and>
   reduce_sum (obj_values (outDegree (calculateCentralityMetrics triangle_net))) = 3 \<and>
   edgeCount (calculateBasicMetrics triangle_net) = 3"
proof -
  have e: "edgeCount (calculateBasicMetrics triangle_net) = 3"
    by (simp add: edgeCount_eq graph_triangle_net)
  from degree_sums_equal_edge_count[of abc_papers "[cite ''a'' ''b'', cite ''b'' ''c'', cite ''a'' ''c'']"]
  show ?thesis unfolding triangle_net_def[symmetric] by (simp add: e)
qed


text \<open>
  C4 (the code at the failing input). On the network built from a single paper and no
  citation, \<open>calculateBasicMetrics\<close> divides 0 by 1 * 0: the density is NaN, not 0.
\<close>

theorem density_single_node_is_NaN: "density (calculateBasicMetrics single_net) = NaN"
  by (simp add: density_eq graph_single_net js_nat_def js_div_def js_mul_def
      js_fin_def js_signed_zero_def)

text \<open>
  C5. For every built network with at least one node in which no node has out-degree zero,
  the authority scores of the centrality metrics (start 1/N, damping 0.85, exactly 10
  iterations) are finite and non-negative, one per node, and sum to 1. Finite numbers are
  computed exactly in the model, so the sum is exactly 1.
\<close>

theorem authority_scores_sum_to_one:
  assumes "net = buildNetwork papers citations" and "nodes (graph net) \<noteq> []"
    and "\<forall>n\<in>set (nodes (graph net)). 0 < outdegree (graph net) n"
  shows "map fst (authority (calculateCentralityMetrics net)) = nodes (graph net) \<and>
         (\<forall>n\<in>set (nodes (graph net)). \<exists>r. map_of (authority (calculateCentralityMetrics net)) n = Some (Num r) \<and> 0 \<le> r) \<and>
         js_sum (obj_values (authority (calculateCentralityMetrics net))) = Num 1"
proof -
  have wf: "wf_graph (graph net)" unfolding assms(1) by (rule wf_buildNetwork)
  have a: "authority (calculateCentralityMetrics net)
           = calculateAuthorityScore (graph net) 10 (Num (85 / 100))"
    by (simp add: calculateCentralityMetrics_def Let_def)
  from authority_sum_wf[OF wf assms(2) _ _ assms(3), of "85 / 100" 10]
  show ?thesis unfolding a by (simp add: fin_on_def)
qed

text \<open>The theorem on the cycle \<open>a \<rightarrow> b \<rightarrow> c \<rightarrow> a\<close>.\<close>

theorem authority_scores_sum_to_one_witness:
  "map fst (authority (calculateCentralityMetrics cycle_net)) = [''a'', ''b'', ''c''] \<and>
   js_sum (obj_values (authority (calculateCentralityMetrics cycle_net))) = Num 1"
proof -
  have ne: "nodes (graph cycle_net) \<noteq> []" by (simp add: graph_cycle_net)
  have ns: "\<forall>n\<in>set (nodes (graph cycle_net)). 0 < outdegree (graph cycle_net) n"
    by (simp add: graph_cycle_net outdegree_def)
  from authority_scores_sum_to_one[OF cycle_net_def ne ns]
  show ?thesis by (simp add: graph_cycle_net)
qed




text \<open>
  C2 (amended). For the network built from any papers and citations, the edge list of the
  graph has one edge per citation record whose two endpoints are selected papers, in
  order and with duplicates kept, and the edge count and the in- and out-degrees count
  each of them; the table of CitationEdge records is keyed by the ordered pair and holds
  one record per pair that occurs.
\<close>

theorem parallel_edges_kept_in_graph_one_record_per_pair:
  assumes "net = buildNetwork papers citations"
  shows "edges (graph net) = map (\<lambda>c. (citingPaper c, citedPaper c)) (accepted papers citations) \<and>
         edgeCount (calculateBasicMetrics net) = length (accepted papers citations) \<and>
         indegree (graph net) v = length (filter (\<lambda>c. citedPaper c = v) (accepted papers citations)) \<and>
         outdegree (graph net) v = length (filter (\<lambda>c. citingPaper c = v) (accepted papers citations)) \<and>
         distinct (map fst (citationEdges net)) \<and>
         set (map fst (citationEdges net)) = citationKey ` set (accepted papers citations)"
proof -
  define net0 where "net0 = fold addPaper papers emptyNetwork"
  have ns: "set (nodes (graph net0)) = paper_id ` set papers"
    by (simp add: net0_def nodes_fold_addPaper emptyNetwork_def Graph_def)
  have es: "edges (graph net0) = []"
    by (simp add: net0_def edges_fold_addPaper emptyNetwork_def Graph_def)
  have ce: "citationEdges net0 = []"
    by (simp add: net0_def citationEdges_fold_addPaper emptyNetwork_def)
  have net: "net = fold addCitation citations net0"
    by (simp add: assms buildNetwork_def net0_def)
  have acc: "filter (\<lambda>c. citingPaper c \<in> set (nodes (graph net0)) \<and> citedPaper c \<in> set (nodes (graph net0))) citations
             = accepted papers citations"
    by (simp add: accepted_def ns)
  from fold_addCitation[of citations net0]
  have e: "edges (graph net) = map (\<lambda>c. (citingPaper c, citedPaper c)) (accepted papers citations)"
    and k: "fst ` set (citationEdges net) = citationKey ` set (accepted papers citations)"
    and d: "distinct (map fst (citationEdges net))"
    by (simp_all add: net[symmetric] acc es ce)
  have i: "indegree (graph net) v = length (filter (\<lambda>c. citedPaper c = v) (accepted papers citations))"
    by (simp add: indegree_def e filter_map comp_def)
  have o: "outdegree (graph net) v = length (filter (\<lambda>c. citingPaper c = v) (accepted papers citations))"
    by (simp add: outdegree_def e filter_map comp_def)
  show ?thesis using e k d i o by (simp add: edgeCount_eq)
qed

text \<open>The theorem on two duplicate citations from \<open>a\<close> to \<open>b\<close>.\<close>

theorem parallel_edges_kept_in_graph_one_record_per_pair_witness:
  "edges (graph (buildNetwork dup_papers dup_citations)) = [(''a'', ''b''), (''a'', ''b'')] \<and>
   edgeCount (calculateBasicMetrics (buildNetwork dup_papers dup_citations)) = 2 \<and>
   indegree (graph (buildNetwork dup_papers dup_citations)) ''b'' = 2 \<and>
   outdegree (graph (buildNetwork dup_papers dup_citations)) ''a'' = 2 \<and>
   map fst (citationEdges (buildNetwork dup_papers dup_citations)) = [''a-b'']"
proof -
  have a: "accepted dup_papers dup_citations = dup_citations"
    by (simp add: accepted_def dup_papers_def dup_citations_def cite_def mkPaper_def)
  have k: "map fst (citationEdges (buildNetwork dup_papers dup_citations)) = [''a-b'']"
    by (simp add: dup_build)
  from parallel_edges_kept_in_graph_one_record_per_pair[OF refl, of dup_papers dup_citations "''b''"]
    parallel_edges_kept_in_graph_one_record_per_pair[OF refl, of dup_papers dup_citations "''a''"]
  show ?thesis
    by (simp add: a k) (simp add: dup_citations_def cite_def)
qed

text \<open>
  C2 as stated fails: of two duplicate citations the build keeps two graph edges but a
  single CitationEdge record, that of the later citation, and returns one citation.
\<close>

theorem duplicate_citations_share_one_record:
  "br_edges (snd (buildCitationNetwork dup_papers dup_citations)) = 2 \<and>
   br_citations (snd (buildCitationNetwork dup_papers dup_citations))
     = [\<lparr>ce_source = ''a'', ce_target = ''b'', ce_citationType = ''direct'',
         ce_sentiment = ''neutral'', ce_strength = 1, ce_context = ''again''\<rparr>]"
  by (simp add: buildCitationNetwork_def Let_def dup_build)




text \<open>
  C7. On every built network community detection returns, and every community it returns
  has distinct members that are nodes of the graph, a size equal to the number of its
  members, and at least 3 members.
\<close>

theorem communities_are_node_subsets_of_size_at_least_three:
  assumes "net = buildNetwork papers citations"
  shows "\<exists>r. detectCommunities net = Inr r \<and>
             (\<forall>c\<in>set (cr_communities r).
                set (cm_members c) \<subseteq> set (nodes (graph net)) \<and> distinct (cm_members c) \<and>
                cm_size c = length (cm_members c) \<and> 3 \<le> cm_size c)"
  using detectCommunities_has_papers[OF has_papers_buildNetwork, of papers citations] assms
  by (auto simp: list_all_iff community_ok_def)

text \<open>The theorem on the scenario, whose three papers form one community.\<close>

theorem communities_are_node_subsets_of_size_at_least_three_witness:
  "detectCommunities triangle_net
     = Inr \<lparr>cr_count = 1,
            cr_communities = [\<lparr>cm_id = 0, cm_size = 3, cm_members = [''a'', ''b'', ''c'']\<rparr>]\<rparr> \<and>
   set [''a'', ''b'', ''c''] \<subseteq> set (nodes (graph triangle_net))"
  using communities_are_node_subsets_of_size_at_least_three[OF triangle_net_def]
  by (simp add: detectCommunities_triangle)



text \<open>
  C10 (amended). For every built network, the gexf export is the header, one \<open><node>\<close>
  element per PaperNode in node order, carrying its id, its title as label with every
  double quote replaced by \<open>&quot;\<close> (so the label holds no double quote), and
  citation count and impact score as \<open>attvalue\<close> attributes, then one \<open><edge>\<close>
  element per edge of the graph with the sequential integer id from 0, source and
  target, and the footer; the graphml export is the header, one \<open><node>\<close> element per
  node carrying only its id, one \<open><edge>\<close> element per edge of the graph with id
  \<open>e\<close> followed by the sequential integer, source and target, and the footer.
\<close>

theorem gexf_and_graphml_documents:
  assumes "net = buildNetwork papers citations"
  shows "map fst (paperNodes net) = nodes (graph net) \<and>
         convertToGEXF toStr (exportData ts net)
           = Inr (gexfHeader
                  @ concat (map (\<lambda>kv. gexfNodeText toStr (fst kv) (snd kv)) (paperNodes net))
                  @ ''</nodes>\<newline>'' @ ''<edges>\<newline>''
                  @ concat (map (\<lambda>i. gexfEdge toStr (i, exportEdgeOf net (edges (graph net) ! i)))
                              [0..<length (edges (graph net))])
                  @ gexfFooter) \<and>
         convertToGraphML toStr (exportData ts net)
           = graphmlHeader
             @ concat (map (\<lambda>n. ''<node id='' @ quoted n @ ''/>\<newline>'') (nodes (graph net)))
             @ concat (map (\<lambda>i. graphmlEdge toStr (i, exportEdgeOf net (edges (graph net) ! i)))
                         [0..<length (edges (graph net))])
             @ graphmlFooter \<and>
         dq \<notin> set (replaceQuotes s)"
proof -
  have wf: "wf_graph (graph net)" unfolding assms by (rule wf_buildNetwork)
  have ro: "records_ok net" unfolding assms by (rule records_ok_buildNetwork)
  have keys: "map fst (paperNodes net) = nodes (graph net)" using ro by (simp add: records_ok_def)
  have ns: "nd_nodes (exportData ts net)
            = map (\<lambda>kv. \<lparr>en_id = fst kv, en_paper = Some (snd kv)\<rparr>) (paperNodes net)"
    by (rule exportNodes_built[OF ro wf])
  have es: "enumerate 0 (nd_edges (exportData ts net))
            = map (\<lambda>i. (i, exportEdgeOf net (edges (graph net) ! i))) [0..<length (edges (graph net))]"
    by (simp add: enumerate_nth exportData_edges)
  have gn: "gexfNodes toStr (nd_nodes (exportData ts net)) gexfHeader
            = Inr (gexfHeader @ concat (map (\<lambda>kv. gexfNodeText toStr (fst kv) (snd kv)) (paperNodes net)))"
    unfolding ns by (subst gexfNodes_all) (simp_all add: list_all_iff comp_def)
  have gexf: "convertToGEXF toStr (exportData ts net)
           = Inr (gexfHeader
                  @ concat (map (\<lambda>kv. gexfNodeText toStr (fst kv) (snd kv)) (paperNodes net))
                  @ ''</nodes>\<newline>'' @ ''<edges>\<newline>''
                  @ concat (map (\<lambda>i. gexfEdge toStr (i, exportEdgeOf net (edges (graph net) ! i)))
                              [0..<length (edges (graph net))])
                  @ gexfFooter)"
    by (simp add: convertToGEXF_def gn Let_def es fold_append_concat comp_def)
  have gml: "convertToGraphML toStr (exportData ts net)
           = graphmlHeader
             @ concat (map (\<lambda>n. ''<node id='' @ quoted n @ ''/>\<newline>'') (nodes (graph net)))
             @ concat (map (\<lambda>i. graphmlEdge toStr (i, exportEdgeOf net (edges (graph net) ! i)))
                         [0..<length (edges (graph net))])
             @ graphmlFooter"
    by (simp add: convertToGraphML_def Let_def es ns fold_append_concat comp_def graphmlNode_def
        keys[symmetric])
  show ?thesis using keys gexf gml replaceQuotes_no_quote by blast
qed

text \<open>The theorem on the network with two parallel edges from \<open>a\<close> to \<open>b\<close>.\<close>

theorem gexf_and_graphml_documents_witness:
  "map fst (paperNodes (buildNetwork dup_papers dup_citations)) = [''a'', ''b''] \<and>
   convertToGraphML renderNumber (exportData ''t'' (buildNetwork dup_papers dup_citations))
     = graphmlHeader
       @ ''<node id='' @ quoted ''a'' @ ''/>\<newline>''
       @ ''<node id='' @ quoted ''b'' @ ''/>\<newline>''
       @ ''<edge id='' @ quoted ''e0'' @ '' source='' @ quoted ''a'' @ '' target='' @ quoted ''b''
         @ ''/>\<newline>''
       @ ''<edge id='' @ quoted ''e1'' @ '' source='' @ quoted ''a'' @ '' target='' @ quoted ''b''
         @ ''/>\<newline>''
       @ graphmlFooter"
proof -
  have u: "[0..<2] = [0, 1]" by (simp add: upt_rec)
  from gexf_and_graphml_documents[OF refl, of dup_papers dup_citations renderNumber "''t''" "[]"]
  show ?thesis
    by (simp add: dup_build u graphmlEdge_def exportEdgeOf_def edgeKey_def renderNumber_values)
qed

text \<open>
  C10 as stated fails: the graphml node carries neither label nor citation count nor
  impact score, and the gexf label keeps \<open>&\<close> and \<open><\<close> unescaped.
\<close>

theorem graphml_node_bare_and_gexf_label_unescaped:
  "convertToGraphML renderNumber (exportData ''t'' xml_net)
     = graphmlHeader @ ''<node id='' @ quoted ''p1'' @ ''/>\<newline>'' @ graphmlFooter \<and>
   convertToGEXF renderNumber (exportData ''t'' xml_net)
     = Inr (gexfHeader
            @ ''<node id='' @ quoted ''p1'' @ '' label='' @ quoted ''A&B<C'' @ ''>\<newline>''
            @ ''<attvalues>\<newline>''
            @ ''<attvalue for='' @ quoted ''citationCount'' @ '' value='' @ quoted ''60''
              @ ''/>\<newline>''
            @ ''<attvalue for='' @ quoted ''impactScore'' @ '' value='' @ quoted ''5''
              @ ''/>\<newline>''
            @ ''</attvalues>\<newline>''
            @ ''</node>\<newline>''
            @ ''</nodes>\<newline>'' @ ''<edges>\<newline>'' @ gexfFooter) \<and>
   xmlEscape_spec ''A&B<C'' = ''A&amp;B&lt;C''"
proof -
  have d: "nd_nodes (exportData ''t'' xml_net) = [\<lparr>en_id = ''p1'', en_paper = Some xml_paper\<rparr>]"
    by (simp add: exportData_nodes xml_net_eq exportNodeOf_def xml_paper_fields)
  have e: "nd_edges (exportData ''t'' xml_net) = []"
    by (simp add: exportData_edges xml_net_eq)
  have r: "replaceQuotes ''A&B<C'' = ''A&B<C''"
    by (simp add: replaceQuotes_def dq_def)
  have a: "convertToGraphML renderNumber (exportData ''t'' xml_net)
     = graphmlHeader @ ''<node id='' @ quoted ''p1'' @ ''/>\<newline>'' @ graphmlFooter"
    by (simp add: convertToGraphML_def Let_def d e graphmlNode_def)
  have b: "convertToGEXF renderNumber (exportData ''t'' xml_net)
     = Inr (gexfHeader
            @ ''<node id='' @ quoted ''p1'' @ '' label='' @ quoted ''A&B<C'' @ ''>\<newline>''
            @ ''<attvalues>\<newline>''
            @ ''<attvalue for='' @ quoted ''citationCount'' @ '' value='' @ quoted ''60''
              @ ''/>\<newline>''
            @ ''<attvalue for='' @ quoted ''impactScore'' @ '' value='' @ quoted ''5''
              @ ''/>\<newline>''
            @ ''</attvalues>\<newline>''
            @ ''</node>\<newline>''
            @ ''</nodes>\<newline>'' @ ''<edges>\<newline>'' @ gexfFooter)"
    by (simp add: convertToGEXF_def Let_def d e gexfNode_def gexfNodeText_def xml_paper_fields r
        renderNumber_values)
  have c: "xmlEscape_spec ''A&B<C'' = ''A&amp;B&lt;C''"
    by (simp add: xmlEscape_spec_def dq_def)
  show ?thesis using a b c by (intro conjI)
qed

end
